theory Spec2Isabelle
  imports Main
begin

section \<open>Strings\<close>

text \<open>
  A JavaScript string is modelled as a \<^typ>\<open>string\<close>: a list of code units, here the
  code units U+0000 to U+00FF. The reserved characters that cannot be written inside
  an Isabelle string literal are named.
\<close>

abbreviation nl :: char where "nl \<equiv> CHR 0x0A"
abbreviation cr :: char where "cr \<equiv> CHR 0x0D"
abbreviation nul :: char where "nul \<equiv> CHR 0x00"
abbreviation dq :: char where "dq \<equiv> CHR 0x22"
abbreviation apos :: char where "apos \<equiv> CHR 0x27"

text \<open>\<^verbatim>\<open>s.replace(/c/g, rep)\<close> for a single character \<open>c\<close>: every occurrence, left to right.\<close>

fun replaceAll :: "char \<Rightarrow> string \<Rightarrow> string \<Rightarrow> string" where
  "replaceAll c rep [] = []"
| "replaceAll c rep (x # xs) = (if x = c then rep else [x]) @ replaceAll c rep xs"

text \<open>\<^verbatim>\<open>s.startsWith(p)\<close>, returning the rest of \<open>s\<close> after \<open>p\<close>.\<close>

fun stripPrefix :: "string \<Rightarrow> string \<Rightarrow> string option" where
  "stripPrefix [] s = Some s"
| "stripPrefix (p # ps) [] = None"
| "stripPrefix (p # ps) (c # cs) = (if p = c then stripPrefix ps cs else None)"

text \<open>\<^verbatim>\<open>s.slice(a, b)\<close> for \<open>0 \<le> a\<close>, \<open>0 \<le> b\<close>.\<close>

definition slice :: "string \<Rightarrow> nat \<Rightarrow> nat \<Rightarrow> string" where
  "slice s a b = take (b - a) (drop a s)"

section \<open>HTML escaper\<close>

text \<open>
  \<^verbatim>\<open>
  const escapeHtml = (value: string) =>
    value.replace(/&/g, '&amp;').replace(/</g, '&lt;').replace(/>/g, '&gt;')
         .replace(/"/g, '&quot;').replace(/'/g, '&#039;');
  \<close>
\<close>

definition escapeHtml :: "string \<Rightarrow> string" where
  "escapeHtml v =
     replaceAll apos ''&#039;''
       (replaceAll dq ''&quot;''
         (replaceAll (CHR ''>'') ''&gt;''
           (replaceAll (CHR ''<'') ''&lt;''
             (replaceAll (CHR ''&'') ''&amp;'' v))))"

text \<open>The five entities the escaper introduces.\<close>

definition entities :: "string list" where
  "entities = [''&amp;'', ''&lt;'', ''&gt;'', ''&quot;'', ''&#039;'']"

text \<open>Reference: what one pass over the input, escaping each character once, yields.\<close>

definition escapeChar :: "char \<Rightarrow> string" where
  "escapeChar c =
     (if c = CHR ''&'' then ''&amp;''
      else if c = CHR ''<'' then ''&lt;''
      else if c = CHR ''>'' then ''&gt;''
      else if c = dq then ''&quot;''
      else if c = apos then ''&#039;''
      else [c])"

section \<open>Emote detector\<close>

text \<open>
  \<^verbatim>\<open>/https?:\/\/cdn\.7tv\.app\/emote\/[A-Za-z0-9]+\/\d+x\.(?:webp|png|avif)/g\<close>

  The character classes of the pattern.
\<close>

definition isDigit :: "char \<Rightarrow> bool" where
  "isDigit c = (c \<in> set ''0123456789'')"

definition isAlnum :: "char \<Rightarrow> bool" where
  "isAlnum c =
     (c \<in> set ''ABCDEFGHIJKLMNOPQRSTUVWXYZabcdefghijklmnopqrstuvwxyz0123456789'')"

text \<open>
  The pieces of the pattern, each consuming a prefix of \<open>s\<close> and returning the rest:
  a literal, the optional character \<open>s?\<close>, a class \<open>[...]+\<close> (greedy), and the
  alternation of extensions (first alternative that matches).
\<close>

definition lit :: "string \<Rightarrow> string \<Rightarrow> string option" where
  "lit p s = stripPrefix p s"

definition optChar :: "char \<Rightarrow> string \<Rightarrow> string option" where
  "optChar c s = (case s of x # t \<Rightarrow> if x = c then Some t else Some s | [] \<Rightarrow> Some s)"

definition many1 :: "(char \<Rightarrow> bool) \<Rightarrow> string \<Rightarrow> string option" where
  "many1 P s = (if takeWhile P s = [] then None else Some (dropWhile P s))"

definition extension :: "string \<Rightarrow> string option" where
  "extension s =
     (case stripPrefix ''webp'' s of
        Some r \<Rightarrow> Some r
      | None \<Rightarrow>
          (case stripPrefix ''png'' s of
             Some r \<Rightarrow> Some r
           | None \<Rightarrow> stripPrefix ''avif'' s))"

text \<open>
  The matcher attempts the pattern at the start of \<open>s\<close> and returns the length of the
  match. Each quantified class is followed by a character outside the class
  (\<open>/\<close> after the id, \<open>x\<close> after the scale), the optional \<open>s\<close> is followed by \<open>:\<close>,
  and no extension is a prefix of another, so the backtracking matcher of the
  platform has one way to succeed: the greedy one taken here
  (\<open>emoteAt_iff\<close> and \<open>emoteUrl_prefix_unique\<close> below).
\<close>

definition emoteRest :: "string \<Rightarrow> string option" where
  "emoteRest s =
     Option.bind (lit ''http'' s) (\<lambda>r0.
     Option.bind (optChar (CHR ''s'') r0) (\<lambda>r1.
     Option.bind (lit ''://cdn.7tv.app/emote/'' r1) (\<lambda>r2.
     Option.bind (many1 isAlnum r2) (\<lambda>r3.
     Option.bind (lit ''/'' r3) (\<lambda>r4.
     Option.bind (many1 isDigit r4) (\<lambda>r5.
     Option.bind (lit ''x.'' r5) (\<lambda>r6.
     extension r6)))))))"

definition emoteAt :: "string \<Rightarrow> nat option" where
  "emoteAt s = map_option (\<lambda>r. length s - length r) (emoteRest s)"

text \<open>
  \<^verbatim>\<open>regex.exec(value)\<close> with the global flag, from \<open>regex.lastIndex\<close>: the leftmost
  position at or after \<open>lastIndex\<close> where the pattern matches, with the matched text.
  \<open>findMatch\<close> scans a suffix and returns the offset and length of its first match.
\<close>

fun findMatch :: "string \<Rightarrow> (nat \<times> nat) option" where
  "findMatch [] = None"
| "findMatch (c # cs) =
     (case emoteAt (c # cs) of
        Some n \<Rightarrow> Some (0, n)
      | None \<Rightarrow> (case findMatch cs of None \<Rightarrow> None | Some (i, n) \<Rightarrow> Some (Suc i, n)))"

definition regexExec :: "string \<Rightarrow> nat \<Rightarrow> (nat \<times> string) option" where
  "regexExec v lastIndex =
     (case findMatch (drop lastIndex v) of
        None \<Rightarrow> None
      | Some (i, n) \<Rightarrow> Some (lastIndex + i, take n (drop (lastIndex + i) v)))"

section \<open>Markup renderer\<close>

text \<open>The placeholder template of the renderer, with the matched URL in both attributes.\<close>

definition imgTag :: "string \<Rightarrow> string" where
  "imgTag url =
     ''<img data-emote-url='' @ [dq] @ url @ [dq] @ '' src='' @ [dq] @ url @ [dq]
     @ '' alt='' @ [dq] @ ''7TV emote'' @ [dq] @ '' style='' @ [dq]
     @ ''height:1.5rem;width:1.5rem;display:inline-block;vertical-align:text-bottom;''
     @ [dq] @ '' />''"

text \<open>\<^verbatim>\<open>escapeHtml(segment).replace(/\n/g, '<br/>')\<close>\<close>

definition textHtml :: "string \<Rightarrow> string" where
  "textHtml seg = replaceAll nl ''<br/>'' (escapeHtml seg)"

text \<open>
  \<^verbatim>\<open>
  while ((match = regex.exec(value)) !== null) {
    const start = match.index; const url = match[0];
    html += escapeHtml(value.slice(lastIndex, start)).replace(/\n/g, '<br/>');
    html += `<img data-emote-url="${url}" src="${url}" ... />`;
    lastIndex = start + url.length;
  }
  html += escapeHtml(value.slice(lastIndex)).replace(/\n/g, '<br/>');
  \<close>
\<close>

function renderLoop :: "string \<Rightarrow> nat \<Rightarrow> string \<Rightarrow> string" where
  "renderLoop v lastIndex html =
     (case regexExec v lastIndex of
        None \<Rightarrow> html @ textHtml (drop lastIndex v)
      | Some (start, url) \<Rightarrow>
          renderLoop v (start + length url)
            (html @ textHtml (slice v lastIndex start) @ imgTag url))"
  by pat_completeness auto

definition renderContentHtml :: "string \<Rightarrow> string" where
  "renderContentHtml v = renderLoop v 0 []"

section \<open>Editable tree and content serializer\<close>

text \<open>
  A node of the editable surface: a text node with its \<open>textContent\<close>, an element with
  its \<open>tagName\<close>, attributes and \<open>childNodes\<close>, or a node of any other \<open>nodeType\<close>
  (a comment). The serializer's tests of \<open>nodeType\<close> are the match on the constructor.
\<close>

datatype node =
    TextNode string
  | Element string "(string \<times> string) list" "node list"
  | CommentNode string

text \<open>\<^verbatim>\<open>element.dataset.emoteUrl\<close>: the attribute \<open>data-emote-url\<close>, if present.\<close>

definition datasetEmoteUrl :: "(string \<times> string) list \<Rightarrow> string option" where
  "datasetEmoteUrl attrs = map_of attrs ''data-emote-url''"

fun serializeEditorContent :: "node \<Rightarrow> string" where
  "serializeEditorContent (TextNode t) = t"
| "serializeEditorContent (CommentNode c) = []"
| "serializeEditorContent (Element tagName attrs childNodes) =
     (if tagName = ''IMG'' then
        (case datasetEmoteUrl attrs of None \<Rightarrow> [] | Some url \<Rightarrow> url)
      else if tagName = ''BR'' then [nl]
      else
        let text = foldl (\<lambda>text child. text @ serializeEditorContent child) [] childNodes
        in if tagName = ''DIV'' \<or> tagName = ''P'' then text @ [nl] else text)"

text \<open>
  \<^verbatim>\<open>nextValue.replace(/\n+$/, '')\<close>: the first position from which only newlines
  follow up to the end of the string starts the match, which is removed.
\<close>

fun replaceTrailingNewlines :: "string \<Rightarrow> string" where
  "replaceTrailingNewlines [] = []"
| "replaceTrailingNewlines (c # cs) =
     (if c = nl \<and> list_all (\<lambda>x. x = nl) cs then []
      else c # replaceTrailingNewlines cs)"

definition endsWith :: "string \<Rightarrow> char \<Rightarrow> bool" where
  "endsWith s c = (s \<noteq> [] \<and> last s = c)"

text \<open>The value computed by \<open>updateContentFromEditor\<close> from the children of the editor.\<close>

definition serializeChildren :: "node list \<Rightarrow> string" where
  "serializeChildren children =
     (let nextValue = foldl (\<lambda>acc child. acc @ serializeEditorContent child) [] children
      in if endsWith nextValue nl then replaceTrailingNewlines nextValue else nextValue)"

text \<open>
  The serializer as the specification words it: text, image, line break and block
  container (DIV, P) contribute; any other node contributes the empty string.
\<close>

fun serializeSpec :: "node \<Rightarrow> string" where
  "serializeSpec (TextNode t) = t"
| "serializeSpec (CommentNode c) = []"
| "serializeSpec (Element tagName attrs childNodes) =
     (if tagName = ''IMG'' then
        (case datasetEmoteUrl attrs of None \<Rightarrow> [] | Some url \<Rightarrow> url)
      else if tagName = ''BR'' then [nl]
      else if tagName = ''DIV'' \<or> tagName = ''P'' then
        concat (map serializeSpec childNodes) @ [nl]
      else [])"

text \<open>
  The reference definition with one change: an element that is neither image, line
  break nor block container contributes what its children contribute.
\<close>

fun serializeRef :: "node \<Rightarrow> string" where
  "serializeRef (TextNode t) = t"
| "serializeRef (CommentNode c) = []"
| "serializeRef (Element tagName attrs childNodes) =
     (if tagName = ''IMG'' then
        (case datasetEmoteUrl attrs of None \<Rightarrow> [] | Some url \<Rightarrow> url)
      else if tagName = ''BR'' then [nl]
      else if tagName = ''DIV'' \<or> tagName = ''P'' then
        concat (map serializeRef childNodes) @ [nl]
      else concat (map serializeRef childNodes))"

text \<open>The specification's trailing-newline rule: all trailing newlines are removed.\<close>

definition stripTrailingNewlines :: "string \<Rightarrow> string" where
  "stripTrailingNewlines s = rev (dropWhile (\<lambda>c. c = nl) (rev s))"

text \<open>
  The emote URL shape as the specification words it:
  \<open>http(s)://cdn.7tv.app/emote/<alphanumeric id>/<digits>x.<ext>\<close>.
\<close>

definition isEmoteUrl :: "string \<Rightarrow> bool" where
  "isEmoteUrl u \<longleftrightarrow>
     (\<exists>scheme ident scale ext.
        u = scheme @ ''://cdn.7tv.app/emote/'' @ ident @ ''/'' @ scale @ ''x.'' @ ext
        \<and> scheme \<in> {''http'', ''https''}
        \<and> ident \<noteq> [] \<and> list_all isAlnum ident
        \<and> scale \<noteq> [] \<and> list_all isDigit scale
        \<and> ext \<in> {''webp'', ''png'', ''avif''})"

text \<open>What one character of a text segment becomes in the markup.\<close>

definition renderChar :: "char \<Rightarrow> string" where
  "renderChar c = (if c = nl then ''<br/>'' else escapeChar c)"

text \<open>Every \<open>&\<close> of the string starts one of the five entities.\<close>

fun ampersandsEscaped :: "string \<Rightarrow> bool" where
  "ampersandsEscaped [] = True"
| "ampersandsEscaped (c # cs) =
     ((c = CHR ''&'' \<longrightarrow> (\<exists>e \<in> set entities. stripPrefix e (c # cs) \<noteq> None))
      \<and> ampersandsEscaped cs)"

text \<open>The string contains the opening of an image tag.\<close>

fun hasImgTag :: "string \<Rightarrow> bool" where
  "hasImgTag [] = False"
| "hasImgTag (c # cs) = (stripPrefix ''<img'' (c # cs) \<noteq> None \<or> hasImgTag cs)"

text \<open>Some substring of \<open>v\<close> that starts at position \<open>j\<close> has the emote URL shape.\<close>

definition matchStartsAt :: "string \<Rightarrow> nat \<Rightarrow> bool" where
  "matchStartsAt v j \<longleftrightarrow> (\<exists>u r. drop j v = u @ r \<and> isEmoteUrl u)"

section \<open>Component state\<close>

text \<open>
  The state of the compose box: the \<open>useState\<close> cells and the refs. \<open>editor\<close> is
  \<open>editorRef.current\<close>: \<open>None\<close> while the editable root is not mounted, otherwise its
  child nodes. The emoji fields exist in the variant with suggestions only.
\<close>

record mention =
  pubkey :: string

record emojiRange =
  rangeNode :: node
  rangeStart :: int
  rangeEnd :: int

record state =
  content :: string
  isSubmitting :: bool
  validatedMentions :: "mention list"
  editor :: "node list option"
  lastContentRef :: string
  emojiQuery :: string
  emojiRangeRef :: "emojiRange option"

text \<open>What the hooks provide: \<open>useAuth\<close> and \<open>useUserSettings\<close>.\<close>

record env =
  privateKey :: "string option"
  hideTransactionPopup :: bool

text \<open>
  \<^verbatim>\<open>
  const updateContentFromEditor = () => {
    const editor = editorRef.current;
    if (!editor) return;
    let nextValue = '';
    editor.childNodes.forEach((child) => { nextValue += serializeEditorContent(child); });
    if (nextValue.endsWith('\n')) { nextValue = nextValue.replace(/\n+$/, ''); }
    lastContentRef.current = nextValue;
    setContent(nextValue);
  };
  \<close>
\<close>

definition updateContentFromEditor :: "state \<Rightarrow> state" where
  "updateContentFromEditor s =
     (case editor s of
        None \<Rightarrow> s
      | Some children \<Rightarrow>
          let nextValue = serializeChildren children
          in s\<lparr>lastContentRef := nextValue, content := nextValue\<rparr>)"

section \<open>Submission\<close>

text \<open>
  White space in the sense of \<open>String.prototype.trim\<close> and of the class \<open>\s\<close>, among the
  code units modelled: TAB, LF, VT, FF, CR, SP, NBSP.
\<close>

definition isSpace :: "char \<Rightarrow> bool" where
  "isSpace c = (c \<in> {CHR 0x09, nl, CHR 0x0B, CHR 0x0C, cr, CHR 0x20, CHR 0xA0})"

definition trim :: "string \<Rightarrow> string" where
  "trim s = rev (dropWhile isSpace (rev (dropWhile isSpace s)))"

text \<open>
  The sender's argument: \<open>privateKey\<close>, \<open>userMessage\<close>, \<open>type\<close>, \<open>mentionedPubkeys\<close>.
  Its result record: \<open>id\<close>, \<open>feeAmount\<close>, \<open>feeKAS\<close>. A thrown value is an \<open>Error\<close> with its
  message or something else.
\<close>

datatype request = Request string string string "string list"

datatype txResult = TxResult string int string

datatype thrown = Error string | NotAnError

text \<open>How the awaited \<open>sendTransaction\<close> ends: with a result (\<open>None\<close>: a falsy one) or throwing.\<close>

datatype outcome = Fulfilled "txResult option" | Rejected thrown

datatype effect =
    SendTransaction request
  | ToastSuccess txResult
  | ToastError string string
  | ConsoleError
  | OnPost string

text \<open>The guard \<^verbatim>\<open>content.trim() && privateKey && !isSubmitting\<close>.\<close>

definition canSubmit :: "env \<Rightarrow> state \<Rightarrow> bool" where
  "canSubmit e s =
     (trim (content s) \<noteq> []
      \<and> (case privateKey e of None \<Rightarrow> False | Some k \<Rightarrow> k \<noteq> [])
      \<and> \<not> isSubmitting s)"

text \<open>
  \<open>handlePost\<close> up to its \<open>await\<close>: the guard, \<open>setIsSubmitting(true)\<close>, and the call of
  the sender.
\<close>

definition handlePostStart :: "env \<Rightarrow> state \<Rightarrow> state \<times> effect list" where
  "handlePostStart e s =
     (if canSubmit e s then
        (s\<lparr>isSubmitting := True\<rparr>,
         [SendTransaction
            (Request (case privateKey e of Some k \<Rightarrow> k | None \<Rightarrow> []) (content s) ''post''
               (map pubkey (validatedMentions s)))])
      else (s, []))"

text \<open>
  \<open>handlePost\<close> from its \<open>await\<close> on: \<open>posted\<close> is the \<open>content\<close> the invocation started
  with, \<open>s\<close> the state when the sender ends. The \<open>finally\<close> block runs on each path.
\<close>

definition handlePostSettle :: "env \<Rightarrow> string \<Rightarrow> outcome \<Rightarrow> state \<Rightarrow> state \<times> effect list" where
  "handlePostSettle e posted out s =
     (case out of
        Fulfilled (Some result) \<Rightarrow>
          (s\<lparr>content := [], isSubmitting := False\<rparr>,
           (if hideTransactionPopup e then [] else [ToastSuccess result]) @ [OnPost posted])
      | Fulfilled None \<Rightarrow> (s\<lparr>isSubmitting := False\<rparr>, [])
      | Rejected err \<Rightarrow>
          (s\<lparr>isSubmitting := False\<rparr>,
           [ConsoleError,
            ToastError ''An error occurred when sending transaction''
              (case err of Error message \<Rightarrow> message
                         | NotAnError \<Rightarrow> ''Unknown error occurred'')]))"

text \<open>One invocation run to its end, the sender ending with \<open>out\<close> and no other event between.\<close>

definition handlePost :: "env \<Rightarrow> outcome \<Rightarrow> state \<Rightarrow> state \<times> effect list" where
  "handlePost e out s =
     (if canSubmit e s then
        let (s1, effs1) = handlePostStart e s;
            (s2, effs2) = handlePostSettle e (content s) out s1
        in (s2, effs1 @ effs2)
      else handlePostStart e s)"

text \<open>
  \<open>content\<close>, \<open>isSubmitting\<close> and \<open>validatedMentions\<close> are constants of a render:
  the \<open>handlePost\<close> that a render created tests and sends the values that render
  closed over, whatever \<open>setIsSubmitting\<close> or \<open>setContent\<close> have set since; the
  setters write the cells that the next render reads. \<open>handlePostInvoke e r s\<close> is
  \<open>handlePost\<close> up to its \<open>await\<close>, for the closure of a render with values \<open>r\<close>
  and the cells \<open>s\<close>.
\<close>

definition handlePostInvoke :: "env \<Rightarrow> state \<Rightarrow> state \<Rightarrow> state \<times> effect list" where
  "handlePostInvoke e r s =
     (if canSubmit e r then
        (s\<lparr>isSubmitting := True\<rparr>,
         [SendTransaction
            (Request (case privateKey e of Some k \<Rightarrow> k | None \<Rightarrow> []) (content r) ''post''
               (map pubkey (validatedMentions r)))])
      else (s, []))"

text \<open>
  The events of the page that bear on submission: an invocation of the submit
  handler of the last render, an edit of the surface (its new children, then
  \<open>onInput\<close>), the sender of the oldest outstanding invocation ending, and a render,
  after which the handlers close over the cells as they are then. \<open>current\<close> holds
  the cells and the refs, \<open>rendered\<close> the values of the last render, \<open>inflight\<close> the
  content each outstanding invocation started with.
\<close>

datatype event = Submit | Input "node list" | Settle outcome | Render

record system =
  current :: state
  rendered :: state
  inflight :: "string list"
  effects :: "effect list"

fun step :: "env \<Rightarrow> system \<Rightarrow> event \<Rightarrow> system" where
  "step e sys Submit =
     (let (s', effs) = handlePostInvoke e (rendered sys) (current sys)
      in sys\<lparr>current := s',
              inflight := inflight sys @ (if effs = [] then [] else [content (rendered sys)]),
              effects := effects sys @ effs\<rparr>)"
| "step e sys (Input nodes) =
     sys\<lparr>current := updateContentFromEditor ((current sys)\<lparr>editor := Some nodes\<rparr>)\<rparr>"
| "step e sys (Settle out) =
     (case inflight sys of
        [] \<Rightarrow> sys
      | posted # rest \<Rightarrow>
          let (s', effs) = handlePostSettle e posted out (current sys)
          in sys\<lparr>current := s', inflight := rest, effects := effects sys @ effs\<rparr>)"
| "step e sys Render = sys\<lparr>rendered := current sys\<rparr>"

definition run :: "env \<Rightarrow> system \<Rightarrow> event list \<Rightarrow> system" where
  "run e sys evs = foldl (step e) sys evs"

fun isSend :: "effect \<Rightarrow> bool" where
  "isSend (SendTransaction r) = True"
| "isSend _ = False"

definition sends :: "effect list \<Rightarrow> nat" where
  "sends effs = length (filter isSend effs)"

section \<open>Markup parser of the editable surface\<close>

text \<open>
  \<^verbatim>\<open>editor.innerHTML = renderContentHtml(value)\<close> hands the markup to the HTML fragment
  parser of the platform, which is not part of the component. Its model here follows
  the HTML standard on the markup grammar the renderer emits: the input stream is
  read with its newlines normalized (CR LF and CR become LF); character data holds
  the five entities; a NUL in character data is dropped; \<open>br\<close> and \<open>img\<close> are void
  elements with double-quoted attribute values. Markup the renderer never emits is
  outside the model and yields \<open>None\<close>: other tags, other character references, and
  attribute values holding a character reference or a NUL.
\<close>

fun normalizeNewlines :: "string \<Rightarrow> string" where
  "normalizeNewlines [] = []"
| "normalizeNewlines [c] = (if c = cr then [nl] else [c])"
| "normalizeNewlines (c # d # cs) =
     (if c = cr then
        (if d = nl then nl # normalizeNewlines cs else nl # normalizeNewlines (d # cs))
      else c # normalizeNewlines (d # cs))"

datatype token = Character char | StartTag string "(string \<times> string) list"

text \<open>The character reference after an \<open>&\<close>.\<close>

definition charRef :: "string \<Rightarrow> (char \<times> string) option" where
  "charRef s =
     (case stripPrefix ''amp;'' s of Some r \<Rightarrow> Some (CHR ''&'', r) | None \<Rightarrow>
     (case stripPrefix ''lt;'' s of Some r \<Rightarrow> Some (CHR ''<'', r) | None \<Rightarrow>
     (case stripPrefix ''gt;'' s of Some r \<Rightarrow> Some (CHR ''>'', r) | None \<Rightarrow>
     (case stripPrefix ''quot;'' s of Some r \<Rightarrow> Some (dq, r) | None \<Rightarrow>
     (case stripPrefix ''#039;'' s of Some r \<Rightarrow> Some (apos, r) | None \<Rightarrow> None)))))"

text \<open>The tag name after a \<open><\<close>, as \<open>tagName\<close> reports it.\<close>

definition tagOpen :: "string \<Rightarrow> (string \<times> string) option" where
  "tagOpen s =
     (case many1 isAlnum s of
        None \<Rightarrow> None
      | Some r \<Rightarrow>
          let name = takeWhile isAlnum s
          in if name = ''br'' then Some (''BR'', r)
             else if name = ''img'' then Some (''IMG'', r)
             else None)"

definition isAttrNameChar :: "char \<Rightarrow> bool" where
  "isAttrNameChar c = (isAlnum c \<or> c = CHR ''-'')"

text \<open>
  The attributes of a tag up to its end (\<open>>\<close> or \<open>/>\<close>): each a name, \<open>=\<close>, and a
  double-quoted value without character references and without NUL.
\<close>

function readAttrs :: "string \<Rightarrow> ((string \<times> string) list \<times> string) option" where
  "readAttrs [] = None"
| "readAttrs (c # cs) =
     (if c = CHR ''>'' then Some ([], cs)
      else if c = CHR ''/'' then
        (case stripPrefix ''>'' cs of Some r \<Rightarrow> Some ([], r) | None \<Rightarrow> None)
      else if c = CHR '' '' then readAttrs cs
      else
        (case many1 isAttrNameChar (c # cs) of
           None \<Rightarrow> None
         | Some r \<Rightarrow>
             (case stripPrefix [CHR ''='', dq] r of
                None \<Rightarrow> None
              | Some r' \<Rightarrow>
                  if CHR ''&'' \<in> set (takeWhile (\<lambda>x. x \<noteq> dq) r')
                     \<or> nul \<in> set (takeWhile (\<lambda>x. x \<noteq> dq) r') then None
                  else
                    (case dropWhile (\<lambda>x. x \<noteq> dq) r' of
                       [] \<Rightarrow> None
                     | q # r'' \<Rightarrow>
                         (case readAttrs r'' of
                            None \<Rightarrow> None
                          | Some (attrs, rest) \<Rightarrow>
                              Some ((takeWhile isAttrNameChar (c # cs),
                                     takeWhile (\<lambda>x. x \<noteq> dq) r') # attrs, rest))))))"
  by pat_completeness auto

function tokenize :: "string \<Rightarrow> token list option" where
  "tokenize [] = Some []"
| "tokenize (c # cs) =
     (if c = CHR ''<'' then
        (case tagOpen cs of
           None \<Rightarrow> None
         | Some (tagName, r) \<Rightarrow>
             (case readAttrs r of
                None \<Rightarrow> None
              | Some (attrs, r') \<Rightarrow>
                  (case tokenize r' of
                     None \<Rightarrow> None
                   | Some ts \<Rightarrow> Some (StartTag tagName attrs # ts))))
      else if c = CHR ''&'' then
        (case charRef cs of
           None \<Rightarrow> None
         | Some (d, r) \<Rightarrow>
             (case tokenize r of None \<Rightarrow> None | Some ts \<Rightarrow> Some (Character d # ts)))
      else if c = nul then tokenize cs
      else (case tokenize cs of None \<Rightarrow> None | Some ts \<Rightarrow> Some (Character c # ts)))"
  by pat_completeness auto

text \<open>Tree construction: adjacent characters form one text node, a tag a childless element.\<close>

fun buildNodes :: "token list \<Rightarrow> node list" where
  "buildNodes [] = []"
| "buildNodes (Character c # ts) =
     (case buildNodes ts of
        TextNode t # ns \<Rightarrow> TextNode (c # t) # ns
      | ns \<Rightarrow> TextNode [c] # ns)"
| "buildNodes (StartTag tagName attrs # ts) = Element tagName attrs [] # buildNodes ts"

definition parseFragment :: "string \<Rightarrow> node list option" where
  "parseFragment html = map_option buildNodes (tokenize (normalizeNewlines html))"

text \<open>
  \<^verbatim>\<open>
  const updateEditorFromContent = (value: string) => {
    const editor = editorRef.current;
    if (!editor) return;
    editor.innerHTML = renderContentHtml(value);
  };
  \<close>
  The result is \<open>None\<close> where the markup is outside the parser model.
\<close>

definition updateEditorFromContent :: "string \<Rightarrow> state \<Rightarrow> state option" where
  "updateEditorFromContent v s =
     (case editor s of
        None \<Rightarrow> Some s
      | Some old \<Rightarrow>
          (case parseFragment (renderContentHtml v) of
             None \<Rightarrow> None
           | Some nodes \<Rightarrow> Some (s\<lparr>editor := Some nodes\<rparr>)))"

text \<open>What a token contributes to the serialization, and the tokens of a text segment.\<close>

fun tokenText :: "token \<Rightarrow> string" where
  "tokenText (Character c) = [c]"
| "tokenText (StartTag tagName attrs) = serializeEditorContent (Element tagName attrs [])"

definition segmentTokens :: "string \<Rightarrow> token list" where
  "segmentTokens seg = map (\<lambda>c. if c = nl then StartTag ''BR'' [] else Character c) seg"

definition imgAttrs :: "string \<Rightarrow> (string \<times> string) list" where
  "imgAttrs url =
     [(''data-emote-url'', url), (''src'', url), (''alt'', ''7TV emote''),
      (''style'',
       ''height:1.5rem;width:1.5rem;display:inline-block;vertical-align:text-bottom;'')]"

section \<open>Mention validation\<close>

text \<open>
  \<^verbatim>\<open>
  const validateMentions = async () => {
    const mentions = detectMentionsInText(content);
    const validated = [];
    for (const mention of mentions) {
      const validPubkey = await validateAndReturnPublicKey(mention.pubkey);
      if (validPubkey) { validated.push({ pubkey: validPubkey }); }
    }
    setValidatedMentions(validated);
  };
  if (content.includes('@')) { validateMentions(); } else { setValidatedMentions([]); }
  \<close>
  \<open>detectMentionsInText\<close> and \<open>validateAndReturnPublicKey\<close> are imported utilities and
  taken as parameters \<open>detect\<close> and \<open>validate\<close>; the validator's awaited value is a
  public key or a falsy value (\<open>None\<close>, or the empty string). The effect is modelled by
  the actions it performs, in order: the calls of the validator and the state update.
\<close>

datatype mentionAction = ValidateCall string | SetValidatedMentions "mention list"

fun validateLoop ::
  "(string \<Rightarrow> string option) \<Rightarrow> mention list \<Rightarrow> mention list \<Rightarrow> mentionAction list
     \<Rightarrow> mention list \<times> mentionAction list" where
  "validateLoop validate [] validated acts = (validated, acts)"
| "validateLoop validate (m # ms) validated acts =
     (let validPubkey = validate (pubkey m);
          acts' = acts @ [ValidateCall (pubkey m)]
      in case validPubkey of
           None \<Rightarrow> validateLoop validate ms validated acts'
         | Some k \<Rightarrow>
             if k \<noteq> [] then validateLoop validate ms (validated @ [\<lparr>pubkey = k\<rparr>]) acts'
             else validateLoop validate ms validated acts')"

definition validateMentions ::
  "(string \<Rightarrow> mention list) \<Rightarrow> (string \<Rightarrow> string option) \<Rightarrow> string \<Rightarrow> mentionAction list" where
  "validateMentions detect validate c =
     (let (validated, acts) = validateLoop validate (detect c) [] []
      in acts @ [SetValidatedMentions validated])"

definition mentionsEffect ::
  "(string \<Rightarrow> mention list) \<Rightarrow> (string \<Rightarrow> string option) \<Rightarrow> state \<Rightarrow> mentionAction list" where
  "mentionsEffect detect validate s =
     (if CHR ''@'' \<in> set (content s) then validateMentions detect validate (content s)
      else [SetValidatedMentions []])"

fun applyMentionAction :: "state \<Rightarrow> mentionAction \<Rightarrow> state" where
  "applyMentionAction s (ValidateCall k) = s"
| "applyMentionAction s (SetValidatedMentions ms) = s\<lparr>validatedMentions := ms\<rparr>"

definition runMentionsEffect ::
  "(string \<Rightarrow> mention list) \<Rightarrow> (string \<Rightarrow> string option) \<Rightarrow> state \<Rightarrow> state" where
  "runMentionsEffect detect validate s =
     foldl applyMentionAction s (mentionsEffect detect validate s)"

text \<open>What a candidate resolves to: a validated mention, or nothing.\<close>

definition resolveMention :: "(string \<Rightarrow> string option) \<Rightarrow> mention \<Rightarrow> mention option" where
  "resolveMention validate m =
     (case validate (pubkey m) of
        None \<Rightarrow> None
      | Some k \<Rightarrow> if k \<noteq> [] then Some \<lparr>pubkey = k\<rparr> else None)"

section \<open>Emoji query\<close>

text \<open>
  \<^verbatim>\<open>/(?:^|\s):([\w+-]*)$/.exec(uptoCursor)\<close>

  \<open>colonQuery\<close> is the part \<^verbatim>\<open>:([\w+-]*)$\<close> attempted at the start of \<open>s\<close>: the class
  takes the longest run, which must reach the end of the string; the result is the
  captured run. \<open>queryAt\<close> is the pattern attempted at one position, \<open>atStart\<close> telling
  whether that position is the start of the input; \<open>queryFrom\<close> tries the positions
  from left to right.
\<close>

definition isWordChar :: "char \<Rightarrow> bool" where
  "isWordChar c = (isAlnum c \<or> c = CHR ''_'')"

definition isQueryChar :: "char \<Rightarrow> bool" where
  "isQueryChar c = (isWordChar c \<or> c = CHR ''+'' \<or> c = CHR ''-'')"

definition colonQuery :: "string \<Rightarrow> string option" where
  "colonQuery s =
     (case s of
        [] \<Rightarrow> None
      | c # r \<Rightarrow>
          if c = CHR '':'' \<and> dropWhile isQueryChar r = [] then Some (takeWhile isQueryChar r)
          else None)"

definition queryAt :: "bool \<Rightarrow> string \<Rightarrow> string option" where
  "queryAt atStart s =
     (case (if atStart then colonQuery s else None) of
        Some q \<Rightarrow> Some q
      | None \<Rightarrow>
          (case s of
             [] \<Rightarrow> None
           | c # r \<Rightarrow> if isSpace c then colonQuery r else None))"

fun queryFrom :: "bool \<Rightarrow> string \<Rightarrow> string option" where
  "queryFrom atStart [] = queryAt atStart []"
| "queryFrom atStart (c # cs) =
     (case queryAt atStart (c # cs) of
        Some q \<Rightarrow> Some q
      | None \<Rightarrow> queryFrom False cs)"

definition emojiQueryExec :: "string \<Rightarrow> string option" where
  "emojiQueryExec uptoCursor = queryFrom True uptoCursor"

text \<open>
  The first range of the selection: its end container, end offset, and whether the
  editor contains the end container. \<open>None\<close> stands for no selection or no range.
\<close>

record caret =
  endContainer :: node
  endOffset :: nat
  endInEditor :: bool

text \<open>
  \<^verbatim>\<open>
  const textNode = range.endContainer as Text;
  const text = textNode.textContent || '';
  const uptoCursor = text.slice(0, range.endOffset);
  const match = /(?:^|\s):([\w+-]*)$/.exec(uptoCursor);
  if (!match) { clear; return; }
  const query = match[1] || '';
  if (!query) { clear; return; }
  setEmojiQuery(query);
  emojiRangeRef.current = { node: textNode, start: range.endOffset - query.length - 1,
                            end: range.endOffset };
  \<close>
\<close>

definition clearEmojiQuery :: "state \<Rightarrow> state" where
  "clearEmojiQuery s = s\<lparr>emojiQuery := [], emojiRangeRef := None\<rparr>"

definition updateEmojiQueryFromSelection :: "caret option \<Rightarrow> state \<Rightarrow> state" where
  "updateEmojiQueryFromSelection selection s =
     (case editor s of
        None \<Rightarrow> clearEmojiQuery s
      | Some children \<Rightarrow>
          (case selection of
             None \<Rightarrow> clearEmojiQuery s
           | Some rng \<Rightarrow>
               if \<not> endInEditor rng then clearEmojiQuery s
               else
                 (case endContainer rng of
                    TextNode t \<Rightarrow>
                      (case emojiQueryExec (take (endOffset rng) t) of
                         None \<Rightarrow> clearEmojiQuery s
                       | Some query \<Rightarrow>
                           if query = [] then clearEmojiQuery s
                           else s\<lparr>emojiQuery := query,
                                  emojiRangeRef :=
                                    Some \<lparr>rangeNode = TextNode t,
                                          rangeStart = int (endOffset rng)
                                                       - int (length query) - 1,
                                          rangeEnd = int (endOffset rng)\<rparr>\<rparr>)
                  | Element tagName attrs childNodes \<Rightarrow> clearEmojiQuery s
                  | CommentNode c \<Rightarrow> clearEmojiQuery s)))"

section \<open>Properties of the escaper\<close>

lemma replaceAll_append: "replaceAll c r (a @ b) = replaceAll c r a @ replaceAll c r b"
  by (induction a) auto

lemma escapeHtml_append: "escapeHtml (a @ b) = escapeHtml a @ escapeHtml b"
  by (simp add: escapeHtml_def replaceAll_append)

lemma escapeHtml_single: "escapeHtml [c] = escapeChar c"
  by (simp add: escapeHtml_def escapeChar_def)

lemma escapeHtml_Cons: "escapeHtml (c # s) = escapeChar c @ escapeHtml s"
  using escapeHtml_append [of "[c]" s] by (simp add: escapeHtml_single)

lemma escapeHtml_Nil: "escapeHtml [] = []"
  by (simp add: escapeHtml_def)

lemma escapeHtml_concat: "escapeHtml s = concat (map escapeChar s)"
  by (induction s) (simp_all add: escapeHtml_Nil escapeHtml_Cons)

lemma textHtml_Nil: "textHtml [] = []"
  by (simp add: textHtml_def escapeHtml_Nil)

lemma textHtml_Cons: "textHtml (c # s) = renderChar c @ textHtml s"
  by (simp add: textHtml_def escapeHtml_Cons replaceAll_append renderChar_def escapeChar_def)

lemma textHtml_append: "textHtml (a @ b) = textHtml a @ textHtml b"
  by (simp add: textHtml_def escapeHtml_append replaceAll_append)

section \<open>Properties of the emote detector\<close>

lemma stripPrefix_Some_iff: "stripPrefix p s = Some r \<longleftrightarrow> s = p @ r"
  by (induction p s rule: stripPrefix.induct) auto

lemma stripPrefix_append: "stripPrefix p (p @ r) = Some r"
  by (simp add: stripPrefix_Some_iff)

lemma not_alnum_slash: "\<not> isAlnum (CHR ''/'')"
  by (simp add: isAlnum_def)

lemma not_digit_x: "\<not> isDigit (CHR ''x'')"
  by (simp add: isDigit_def)

lemma takeWhile_class:
  "list_all P xs \<Longrightarrow> \<not> P y \<Longrightarrow> takeWhile P (xs @ y # ys) = xs"
  by (induction xs) auto

lemma dropWhile_class:
  "list_all P xs \<Longrightarrow> \<not> P y \<Longrightarrow> dropWhile P (xs @ y # ys) = y # ys"
  by (induction xs) auto

lemma takeWhile_all: "list_all P (takeWhile P xs)"
  by (induction xs) auto

lemma lit_append: "lit p (p @ r) = Some r"
  by (simp add: lit_def stripPrefix_append)

lemma lit_Some_iff: "lit p s = Some r \<longleftrightarrow> s = p @ r"
  by (simp add: lit_def stripPrefix_Some_iff)

lemma many1_class:
  "xs \<noteq> [] \<Longrightarrow> list_all P xs \<Longrightarrow> \<not> P y \<Longrightarrow> many1 P (xs @ y # ys) = Some (y # ys)"
  by (simp add: many1_def takeWhile_class dropWhile_class)

lemma many1_Some:
  "many1 P s = Some r \<Longrightarrow> \<exists>xs. s = xs @ r \<and> xs \<noteq> [] \<and> list_all P xs"
  unfolding many1_def
  by (metis option.distinct(1) option.inject takeWhile_dropWhile_id takeWhile_all)

lemma optChar_Some:
  "optChar c s = Some r \<Longrightarrow> s = c # r \<or> s = r"
  by (auto simp: optChar_def split: list.splits if_splits)

lemma extension_append:
  "ext \<in> {''webp'', ''png'', ''avif''} \<Longrightarrow> extension (ext @ rest) = Some rest"
  by (auto simp: extension_def)

lemma extension_Some:
  "extension s = Some r \<Longrightarrow> \<exists>ext. s = ext @ r \<and> ext \<in> {''webp'', ''png'', ''avif''}"
  by (auto simp: extension_def stripPrefix_Some_iff split: option.splits)

lemma emoteRest_complete:
  assumes "isEmoteUrl u"
  shows "emoteRest (u @ rest) = Some rest"
proof -
  from assms obtain scheme ident scale ext where
    u: "u = scheme @ ''://cdn.7tv.app/emote/'' @ ident @ ''/'' @ scale @ ''x.'' @ ext"
    and s: "scheme = ''http'' \<or> scheme = ''https''"
    and i: "ident \<noteq> []" "list_all isAlnum ident"
    and d: "scale \<noteq> []" "list_all isDigit scale"
    and e: "ext \<in> {''webp'', ''png'', ''avif''}"
    unfolding isEmoteUrl_def by auto
  let ?t = "ident @ ''/'' @ scale @ ''x.'' @ ext @ rest"
  have h: "lit ''http'' (u @ rest) = Some (drop 4 scheme @ ''://cdn.7tv.app/emote/'' @ ?t)"
    using s by (auto simp: u lit_Some_iff)
  have o: "optChar (CHR ''s'') (drop 4 scheme @ ''://cdn.7tv.app/emote/'' @ ?t)
             = Some (''://cdn.7tv.app/emote/'' @ ?t)"
    using s by (auto simp: optChar_def)
  have p1: "many1 isAlnum ?t = Some (''/'' @ scale @ ''x.'' @ ext @ rest)"
    using many1_class [OF i not_alnum_slash] by simp
  have p2: "many1 isDigit (scale @ ''x.'' @ ext @ rest) = Some (''x.'' @ ext @ rest)"
    using many1_class [OF d not_digit_x] by simp
  show ?thesis
    unfolding emoteRest_def h o lit_append p1 p2 Option.bind.simps
    by (rule extension_append [OF e])
qed

lemma emoteRest_sound:
  assumes "emoteRest s = Some rest"
  shows "\<exists>u. s = u @ rest \<and> isEmoteUrl u"
proof -
  from assms obtain r0 r1 r2 r3 r4 r5 r6 where
    a: "lit ''http'' s = Some r0" "optChar (CHR ''s'') r0 = Some r1"
       "lit ''://cdn.7tv.app/emote/'' r1 = Some r2" "many1 isAlnum r2 = Some r3"
       "lit ''/'' r3 = Some r4" "many1 isDigit r4 = Some r5" "lit ''x.'' r5 = Some r6"
       "extension r6 = Some rest"
    unfolding emoteRest_def by (auto simp: bind_eq_Some_conv)
  from many1_Some [OF a(4)] obtain ident where
    i: "r2 = ident @ r3" "ident \<noteq> []" "list_all isAlnum ident" by blast
  from many1_Some [OF a(6)] obtain scale where
    d: "r4 = scale @ r5" "scale \<noteq> []" "list_all isDigit scale" by blast
  from extension_Some [OF a(8)] obtain ext where
    e: "r6 = ext @ rest" "ext \<in> {''webp'', ''png'', ''avif''}" by blast
  from optChar_Some [OF a(2)] a(1) obtain scheme where
    s: "s = scheme @ r1" "scheme \<in> {''http'', ''https''}"
    by (auto simp: lit_Some_iff)
  let ?u = "scheme @ ''://cdn.7tv.app/emote/'' @ ident @ ''/'' @ scale @ ''x.'' @ ext"
  have "s = ?u @ rest"
    using a(3,5,7) by (simp add: s(1) i(1) d(1) e(1) lit_Some_iff)
  moreover have "isEmoteUrl ?u"
    unfolding isEmoteUrl_def using s(2) i(2,3) d(2,3) e(2) by blast
  ultimately show ?thesis by blast
qed

lemma emoteAt_complete: "isEmoteUrl u \<Longrightarrow> emoteAt (u @ rest) = Some (length u)"
  by (simp add: emoteAt_def emoteRest_complete)

lemma emoteAt_sound:
  assumes "emoteAt s = Some n"
  shows "\<exists>u rest. s = u @ rest \<and> length u = n \<and> isEmoteUrl u"
proof -
  from assms obtain r where r: "emoteRest s = Some r" and n: "n = length s - length r"
    by (auto simp: emoteAt_def)
  from emoteRest_sound [OF r] obtain u where "s = u @ r" "isEmoteUrl u" by blast
  then show ?thesis using n by auto
qed

lemma emoteAt_iff:
  "emoteAt s = Some n \<longleftrightarrow> n \<le> length s \<and> isEmoteUrl (take n s)"
proof
  assume "emoteAt s = Some n"
  from emoteAt_sound [OF this] show "n \<le> length s \<and> isEmoteUrl (take n s)" by auto
next
  assume "n \<le> length s \<and> isEmoteUrl (take n s)"
  then show "emoteAt s = Some n"
    using emoteAt_complete [of "take n s" "drop n s"] by simp
qed

lemma emoteUrl_prefix_unique:
  assumes "isEmoteUrl u" "isEmoteUrl u'" "u @ r = u' @ r'"
  shows "u = u'"
proof -
  have "emoteAt (u @ r) = Some (length u)" "emoteAt (u' @ r') = Some (length u')"
    using assms(1,2) by (simp_all add: emoteAt_complete)
  with assms(3) have "length u = length u'" by simp
  with assms(3) show ?thesis by simp
qed

lemma findMatch_Some:
  "findMatch s = Some (i, n) \<Longrightarrow>
     emoteAt (drop i s) = Some n \<and> i < length s \<and> (\<forall>j<i. emoteAt (drop j s) = None)"
proof (induction s arbitrary: i)
  case Nil
  then show ?case by simp
next
  case (Cons c cs)
  show ?case
  proof (cases "emoteAt (c # cs)")
    case (Some m)
    with Cons.prems show ?thesis by simp
  next
    case None
    with Cons.prems obtain i' where i': "findMatch cs = Some (i', n)" "i = Suc i'"
      by (auto split: option.splits)
    from Cons.IH [OF i'(1)] None i'(2) show ?thesis
      by (auto simp: less_Suc_eq_0_disj)
  qed
qed

lemma findMatch_None:
  "findMatch s = None \<Longrightarrow> emoteAt (drop j s) = None"
proof (induction s arbitrary: j)
  case Nil
  then show ?case by (simp add: emoteAt_def emoteRest_def lit_def)
next
  case (Cons c cs)
  then show ?case
    by (cases j) (auto split: option.splits)
qed

lemma emoteAt_bounds:
  assumes "emoteAt s = Some n"
  shows "0 < n \<and> n \<le> length s"
proof -
  from emoteAt_sound [OF assms] obtain u rest where
    u: "s = u @ rest" "length u = n" "isEmoteUrl u" by blast
  from u(3) have "u \<noteq> []" by (auto simp: isEmoteUrl_def)
  with u(1,2) show ?thesis by auto
qed

lemma regexExec_Some:
  assumes "regexExec v k = Some (start, url)"
  shows "k \<le> start \<and> url \<noteq> [] \<and> start + length url \<le> length v
         \<and> url = take (length url) (drop start v)
         \<and> emoteAt (drop start v) = Some (length url)"
proof -
  from assms obtain i n where f: "findMatch (drop k v) = Some (i, n)"
    and s: "start = k + i" and u: "url = take n (drop (k + i) v)"
    by (auto simp: regexExec_def split: option.splits)
  from findMatch_Some [OF f] have e: "emoteAt (drop (k + i) v) = Some n"
    by (simp add: add.commute)
  from emoteAt_bounds [OF e] have b: "0 < n" "n \<le> length v - (k + i)" by simp_all
  then have l: "length url = n" by (simp add: u)
  from b l s e u show ?thesis by auto
qed
termination renderLoop
proof (relation "measure (\<lambda>(v, lastIndex, html). length v - lastIndex)")
  show "wf (measure (\<lambda>(v, lastIndex, html). length v - lastIndex))" by simp
next
  fix v :: string and lastIndex :: nat and html :: string and x2 and start :: nat and url :: string
  assume "regexExec v lastIndex = Some x2" "(start, url) = x2"
  then have "regexExec v lastIndex = Some (start, url)" by simp
  from regexExec_Some [OF this]
  show "((v, start + length url, html @ textHtml (slice v lastIndex start) @ imgTag url),
         (v, lastIndex, html)) \<in> measure (\<lambda>(v, lastIndex, html). length v - lastIndex)"
    by (cases url) auto
qed

declare renderLoop.simps [simp del]

lemma renderLoop_None:
  "findMatch (drop k v) = None \<Longrightarrow> renderLoop v k html = html @ textHtml (drop k v)"
  by (subst renderLoop.simps) (simp add: regexExec_def)

lemma renderLoop_Some:
  "findMatch (drop k v) = Some (i, n) \<Longrightarrow>
     renderLoop v k html =
       renderLoop v (k + i + n)
         (html @ textHtml (take i (drop k v)) @ imgTag (take n (drop (k + i) v)))"
proof -
  assume f: "findMatch (drop k v) = Some (i, n)"
  from findMatch_Some [OF f] have "emoteAt (drop (k + i) v) = Some n"
    by (simp add: add.commute)
  from emoteAt_bounds [OF this] have l: "n \<le> length v - (k + i)" by simp
  show ?thesis
    by (subst renderLoop.simps) (simp add: regexExec_def f slice_def min_absorb2 [OF l])
qed

lemma renderLoop_drop:
  "renderLoop v k html = html @ renderContentHtml (drop k v)"
proof (induction "length v - k" arbitrary: v k html rule: less_induct)
  case less
  show ?case
  proof (cases "findMatch (drop k v)")
    case None
    then show ?thesis
      using renderLoop_None [of k v html] renderLoop_None [of 0 "drop k v" "[]"]
      by (simp add: renderContentHtml_def)
  next
    case (Some p)
    obtain i n where p: "p = (i, n)" by (cases p)
    note f = Some [unfolded p]
    from findMatch_Some [OF f] have e: "emoteAt (drop (k + i) v) = Some n"
      by (simp add: add.commute)
    from findMatch_Some [OF f] have "i < length v - k" by simp
    then have "k + i < length v" by arith
    moreover from emoteAt_bounds [OF e] have "0 < n" "n \<le> length v - (k + i)" by simp_all
    ultimately have b: "0 < n" "k + i + n \<le> length v" by arith+
    let ?w = "drop k v"
    let ?X = "textHtml (take i ?w) @ imgTag (take n (drop (k + i) v))"
    have 1: "renderLoop v k html = renderLoop v (k + i + n) (html @ ?X)"
      using renderLoop_Some [OF f] by simp
    have 2: "renderLoop v (k + i + n) (html @ ?X)
               = (html @ ?X) @ renderContentHtml (drop (k + i + n) v)"
      using b by (intro less) simp
    have f': "findMatch (drop 0 ?w) = Some (i, n)" using f by simp
    have 3: "renderContentHtml ?w = renderLoop ?w (i + n) ?X"
      using renderLoop_Some [OF f', of "[]"] by (simp add: renderContentHtml_def add.commute)
    have 4: "renderLoop ?w (i + n) ?X = ?X @ renderContentHtml (drop (i + n) ?w)"
      using b by (intro less) simp
    have 5: "drop (i + n) ?w = drop (k + i + n) v"
      by (simp add: add.commute add.left_commute)
    show ?thesis
      by (simp only: 1 2 3 4 5 append_assoc)
  qed
qed

lemma renderContentHtml_None:
  "findMatch v = None \<Longrightarrow> renderContentHtml v = textHtml v"
  using renderLoop_None [of 0 v "[]"] by (simp add: renderContentHtml_def)

lemma renderContentHtml_Some:
  assumes "findMatch v = Some (i, n)"
  shows "renderContentHtml v =
           textHtml (take i v) @ imgTag (take n (drop i v)) @ renderContentHtml (drop (i + n) v)"
proof -
  have "renderContentHtml v = renderLoop v (i + n) (textHtml (take i v) @ imgTag (take n (drop i v)))"
    using renderLoop_Some [of 0 v i n "[]"] assms by (simp add: renderContentHtml_def)
  then show ?thesis
    by (simp add: renderLoop_drop)
qed

section \<open>Escaped text\<close>

lemma stripPrefix_extend:
  "stripPrefix p s \<noteq> None \<Longrightarrow> stripPrefix p (s @ t) \<noteq> None"
  by (induction p s rule: stripPrefix.induct) (auto split: if_splits)

lemma ampersandsEscaped_append:
  "ampersandsEscaped a \<Longrightarrow> ampersandsEscaped b \<Longrightarrow> ampersandsEscaped (a @ b)"
proof (induction a)
  case Nil
  then show ?case by simp
next
  case (Cons c a)
  then have t: "ampersandsEscaped (a @ b)" by simp
  have "\<exists>e \<in> set entities. stripPrefix e ((c # a) @ b) \<noteq> None" if "c = CHR ''&''"
  proof -
    from that Cons.prems(1) obtain e where "e \<in> set entities" "stripPrefix e (c # a) \<noteq> None"
      by auto
    then show ?thesis using stripPrefix_extend by blast
  qed
  with t show ?case by simp
qed

lemma ampersandsEscaped_escapeChar: "ampersandsEscaped (escapeChar c)"
  by (simp add: escapeChar_def entities_def)

lemma ampersandsEscaped_escapeHtml: "ampersandsEscaped (escapeHtml s)"
  by (induction s)
    (simp_all add: escapeHtml_Nil escapeHtml_Cons ampersandsEscaped_append
      ampersandsEscaped_escapeChar)

lemma escapeChar_reserved:
  "set (escapeChar c) \<inter> {CHR ''<'', CHR ''>'', dq, apos} = {}"
  by (simp add: escapeChar_def)

lemma escapeHtml_reserved:
  "set (escapeHtml s) \<inter> {CHR ''<'', CHR ''>'', dq, apos} = {}"
proof (induction s)
  case Nil
  show ?case by (simp add: escapeHtml_Nil)
next
  case (Cons c s)
  with escapeChar_reserved [of c] show ?case
    unfolding escapeHtml_Cons set_append by blast
qed

lemma textHtml_concat: "textHtml s = concat (map renderChar s)"
  by (induction s) (simp_all add: textHtml_Nil textHtml_Cons)

lemma textHtml_no_newline: "nl \<notin> set s \<Longrightarrow> textHtml s = escapeHtml s"
  by (induction s) (auto simp: textHtml_Nil textHtml_Cons escapeHtml_Nil escapeHtml_Cons renderChar_def)

lemma renderChar_quotes: "set (renderChar c) \<inter> {dq, apos} = {}"
  by (simp add: renderChar_def escapeChar_def)

lemma textHtml_quotes: "set (textHtml s) \<inter> {dq, apos} = {}"
proof (induction s)
  case Nil
  show ?case by (simp add: textHtml_Nil)
next
  case (Cons c s)
  with renderChar_quotes [of c] show ?case
    unfolding textHtml_Cons set_append by blast
qed

lemma ampersandsEscaped_renderChar: "ampersandsEscaped (renderChar c)"
  by (simp add: renderChar_def escapeChar_def entities_def)

lemma ampersandsEscaped_textHtml: "ampersandsEscaped (textHtml s)"
  by (induction s)
    (simp_all add: textHtml_Nil textHtml_Cons ampersandsEscaped_append
      ampersandsEscaped_renderChar)

lemma hasImgTag_append_left: "hasImgTag a \<Longrightarrow> hasImgTag (a @ b)"
proof (induction a)
  case Nil
  then show ?case by simp
next
  case (Cons c a)
  then show ?case
    using stripPrefix_extend [of "''<img''" "c # a" b] by auto
qed

lemma hasImgTag_renderChar: "hasImgTag (renderChar c @ x) = hasImgTag x"
  by (simp add: renderChar_def escapeChar_def)

lemma textHtml_no_img: "\<not> hasImgTag (textHtml s)"
  by (induction s) (simp_all add: textHtml_Nil textHtml_Cons hasImgTag_renderChar)

lemma hasImgTag_imgTag: "hasImgTag (imgTag u @ x)"
  by (simp add: imgTag_def)

section \<open>Leftmost matches\<close>

lemma findMatch_leftmost:
  "emoteAt (drop i v) = Some n \<Longrightarrow> (\<forall>j<i. emoteAt (drop j v) = None) \<Longrightarrow> i < length v
     \<Longrightarrow> findMatch v = Some (i, n)"
proof (induction v arbitrary: i)
  case Nil
  then show ?case by simp
next
  case (Cons c cs)
  show ?case
  proof (cases i)
    case 0
    with Cons.prems show ?thesis by simp
  next
    case (Suc i')
    from Cons.prems(2) Suc have n0: "emoteAt (c # cs) = None" by force
    have "\<forall>j<i'. emoteAt (drop j cs) = None"
    proof (intro allI impI)
      fix j assume "j < i'"
      then have "Suc j < i" using Suc by simp
      with Cons.prems(2) have "emoteAt (drop (Suc j) (c # cs)) = None" by blast
      then show "emoteAt (drop j cs) = None" by simp
    qed
    with Cons.IH [of i'] Cons.prems(1,3) Suc have "findMatch cs = Some (i', n)" by simp
    with n0 Suc show ?thesis by simp
  qed
qed

lemma emoteAt_None_iff:
  "emoteAt s = None \<longleftrightarrow> \<not> (\<exists>u r. s = u @ r \<and> isEmoteUrl u)"
proof
  assume "emoteAt s = None"
  then show "\<not> (\<exists>u r. s = u @ r \<and> isEmoteUrl u)"
    using emoteAt_complete by fastforce
next
  assume "\<not> (\<exists>u r. s = u @ r \<and> isEmoteUrl u)"
  then show "emoteAt s = None"
    using emoteAt_sound [of s] by (cases "emoteAt s") auto
qed

lemma findMatch_None_iff:
  "findMatch v = None \<longleftrightarrow> (\<forall>j. emoteAt (drop j v) = None)"
proof
  assume "findMatch v = None"
  then show "\<forall>j. emoteAt (drop j v) = None" by (simp add: findMatch_None)
next
  assume a: "\<forall>j. emoteAt (drop j v) = None"
  show "findMatch v = None"
  proof (cases "findMatch v")
    case None
    then show ?thesis .
  next
    case (Some p)
    obtain i n where "p = (i, n)" by (cases p)
    with Some findMatch_Some [of v i n] a show ?thesis by simp
  qed
qed

lemma matchStartsAt_iff: "matchStartsAt v j \<longleftrightarrow> emoteAt (drop j v) \<noteq> None"
  using emoteAt_None_iff [of "drop j v"] by (simp add: matchStartsAt_def)

lemma findMatch_None_matchStartsAt:
  "findMatch v = None \<longleftrightarrow> (\<forall>j. \<not> matchStartsAt v j)"
  by (simp add: findMatch_None_iff matchStartsAt_iff)

section \<open>Properties of the serializer\<close>

lemma foldl_append_concat:
  "foldl (\<lambda>acc x. acc @ f x) a xs = a @ concat (map f xs)"
  by (induction xs arbitrary: a) simp_all

lemma serializeEditorContent_Element:
  "serializeEditorContent (Element tagName attrs childNodes) =
     (if tagName = ''IMG'' then
        (case datasetEmoteUrl attrs of None \<Rightarrow> [] | Some url \<Rightarrow> url)
      else if tagName = ''BR'' then [nl]
      else if tagName = ''DIV'' \<or> tagName = ''P'' then
        concat (map serializeEditorContent childNodes) @ [nl]
      else concat (map serializeEditorContent childNodes))"
  by (simp add: foldl_append_concat Let_def)

lemma serializeEditorContent_ref: "serializeEditorContent n = serializeRef n"
proof (induction n)
  case (TextNode t)
  show ?case by simp
next
  case (CommentNode c)
  show ?case by simp
next
  case (Element tagName attrs childNodes)
  then have "map serializeEditorContent childNodes = map serializeRef childNodes"
    by simp
  then show ?case
    by (simp only: serializeEditorContent_Element serializeRef.simps)
qed

lemma replaceTrailingNewlines_all:
  "list_all (\<lambda>x. x = nl) s \<Longrightarrow> replaceTrailingNewlines s = []"
  by (cases s) simp_all

lemma stripTrailingNewlines_Cons:
  "stripTrailingNewlines (c # cs) =
     (if c = nl \<and> list_all (\<lambda>x. x = nl) cs then [] else c # stripTrailingNewlines cs)"
  by (auto simp: stripTrailingNewlines_def dropWhile_append list_all_iff)

lemma replaceTrailingNewlines_strip: "replaceTrailingNewlines s = stripTrailingNewlines s"
  by (induction s) (simp_all add: stripTrailingNewlines_Cons, simp add: stripTrailingNewlines_def)

lemma stripTrailingNewlines_id: "\<not> endsWith s nl \<Longrightarrow> stripTrailingNewlines s = s"
  by (cases s rule: rev_cases) (simp_all add: stripTrailingNewlines_def endsWith_def)

lemma stripTrailingNewlines_replicate:
  "\<not> endsWith s nl \<Longrightarrow> stripTrailingNewlines (s @ replicate k nl) = s"
  by (cases s rule: rev_cases) (simp_all add: stripTrailingNewlines_def endsWith_def dropWhile_append)

lemma serializeChildren_strip:
  "serializeChildren children =
     stripTrailingNewlines (concat (map serializeEditorContent children))"
  by (simp add: serializeChildren_def foldl_append_concat Let_def
      replaceTrailingNewlines_strip stripTrailingNewlines_id)

lemma stripTrailingNewlines_no_trailing: "\<not> endsWith (stripTrailingNewlines s) nl"
proof (cases "dropWhile (\<lambda>c. c = nl) (rev s)")
  case Nil
  then show ?thesis by (simp add: stripTrailingNewlines_def endsWith_def)
next
  case (Cons c cs)
  then have "c \<noteq> nl" using hd_dropWhile [of "\<lambda>c. c = nl" "rev s"] by simp
  with Cons show ?thesis by (simp add: stripTrailingNewlines_def endsWith_def)
qed

lemma serializeChildren_no_trailing: "\<not> endsWith (serializeChildren children) nl"
  by (simp add: serializeChildren_strip stripTrailingNewlines_no_trailing)

section \<open>Properties of submission\<close>

lemma trim_all_space: "list_all isSpace s \<Longrightarrow> trim s = []"
  by (auto simp: trim_def list_all_iff dest: set_dropWhileD)

lemma handlePostStart_rejected:
  "\<not> canSubmit e s \<Longrightarrow> handlePostStart e s = (s, [])"
  by (simp add: handlePostStart_def)

lemma handlePostSettle_clears:
  "\<not> isSubmitting (fst (handlePostSettle e posted out s))"
  by (simp add: handlePostSettle_def split: outcome.splits option.splits)

lemma updateContentFromEditor_isSubmitting:
  "isSubmitting (updateContentFromEditor s) = isSubmitting s"
  by (simp add: updateContentFromEditor_def Let_def split: option.splits)

lemma handlePostInvoke_same: "handlePostInvoke e s s = handlePostStart e s"
  by (simp add: handlePostInvoke_def handlePostStart_def)

lemma step_flag_outstanding:
  assumes "isSubmitting (current sys) \<longrightarrow> inflight sys \<noteq> []"
  shows "isSubmitting (current (step e sys ev)) \<longrightarrow> inflight (step e sys ev) \<noteq> []"
proof (cases ev)
  case Submit
  with assms show ?thesis
    by (simp add: handlePostInvoke_def)
next
  case (Input nodes)
  with assms show ?thesis
    by (simp add: updateContentFromEditor_isSubmitting)
next
  case (Settle out)
  show ?thesis
  proof (cases "inflight sys")
    case Nil
    with Settle assms show ?thesis by simp
  next
    case (Cons posted rest)
    with Settle handlePostSettle_clears [of e posted out "current sys"] show ?thesis
      by (simp add: split_beta Let_def)
  qed
next
  case Render
  with assms show ?thesis by simp
qed

lemma run_flag_outstanding:
  "isSubmitting (current sys) \<longrightarrow> inflight sys \<noteq> [] \<Longrightarrow>
     isSubmitting (current (run e sys evs)) \<longrightarrow> inflight (run e sys evs) \<noteq> []"
proof (induction evs arbitrary: sys)
  case Nil
  then show ?case by (simp add: run_def)
next
  case (Cons ev evs)
  from Cons.IH [OF step_flag_outstanding [OF Cons.prems]] show ?case
    by (simp add: run_def)
qed

section \<open>Properties of the markup parser\<close>

lemma stripPrefix_length: "stripPrefix p s = Some r \<Longrightarrow> length r \<le> length s"
  by (simp add: stripPrefix_Some_iff)

lemma many1_length: "many1 P s = Some r \<Longrightarrow> length r < length s"
  using many1_Some [of P s r] by (cases "many1 P s") auto

lemma readAttrs_step:
  assumes "many1 isAttrNameChar s = Some r" "stripPrefix [CHR ''='', dq] r = Some r'"
    "dropWhile (\<lambda>x. x \<noteq> dq) r' = q # r''"
  shows "length r'' < length s"
proof -
  have "length r'' < length (dropWhile (\<lambda>x. x \<noteq> dq) r')" by (simp add: assms(3))
  also have "\<dots> \<le> length r'" by (rule length_dropWhile_le)
  also have "\<dots> \<le> length r" using assms(2) by (rule stripPrefix_length)
  also have "\<dots> < length s" using assms(1) by (rule many1_length)
  finally show ?thesis .
qed

termination readAttrs
  by (relation "measure length") (auto dest: readAttrs_step)

declare readAttrs.simps [simp del]

lemma readAttrs_length: "readAttrs s = Some (attrs, r) \<Longrightarrow> length r < length s"
proof (induction s arbitrary: attrs r rule: readAttrs.induct)
  case 1
  then show ?case by (simp add: readAttrs.simps)
next
  case (2 c cs)
  show ?case
  proof (cases "c = CHR ''>'' \<or> c = CHR ''/''")
    case True
    with "2.prems" show ?thesis
      by (auto simp: readAttrs.simps stripPrefix_Some_iff split: if_splits option.splits)
  next
    case False
    note nf = False
    show ?thesis
    proof (cases "c = CHR '' ''")
      case True
      with nf "2.prems" have "readAttrs cs = Some (attrs, r)" by (simp add: readAttrs.simps)
      from "2.IH"(1) [OF _ _ True this] nf show ?thesis by simp
    next
      case False
      with nf "2.prems" obtain r1 r2 q r3 as where
        a: "many1 isAttrNameChar (c # cs) = Some r1" "stripPrefix [CHR ''='', dq] r1 = Some r2"
           "dropWhile (\<lambda>x. x \<noteq> dq) r2 = q # r3" "readAttrs r3 = Some (as, r)"
           "\<not> (CHR ''&'' \<in> set (takeWhile (\<lambda>x. x \<noteq> dq) r2)
               \<or> nul \<in> set (takeWhile (\<lambda>x. x \<noteq> dq) r2))"
        by (simp add: readAttrs.simps split: option.splits if_splits list.splits prod.splits)
      from "2.IH"(2) [OF _ _ False a(1) a(2) a(5) a(3) a(4)] nf have "length r < length r3" by simp
      also have "\<dots> < length (c # cs)" using a(1,2,3) by (rule readAttrs_step)
      finally show ?thesis .
    qed
  qed
qed

lemma tagOpen_length: "tagOpen s = Some (t, r) \<Longrightarrow> length r < length s"
  using many1_length [of isAlnum s]
  by (auto simp: tagOpen_def Let_def split: option.splits if_splits)

lemma charRef_length: "charRef s = Some (d, r) \<Longrightarrow> length r < length s"
  by (auto simp: charRef_def stripPrefix_Some_iff split: option.splits)

termination tokenize
  by (relation "measure length")
    (auto dest!: tagOpen_length readAttrs_length charRef_length)

declare tokenize.simps [simp del]

lemma tokenize_br:
  "tokenize (''<br/>'' @ x) = map_option ((#) (StartTag ''BR'' [])) (tokenize x)"
  by (simp add: tokenize.simps tagOpen_def many1_def isAlnum_def readAttrs.simps
      split: option.splits)

lemma tokenize_entity:
  "tokenize (''&amp;'' @ x) = map_option ((#) (Character (CHR ''&''))) (tokenize x)"
  "tokenize (''&lt;'' @ x) = map_option ((#) (Character (CHR ''<''))) (tokenize x)"
  "tokenize (''&gt;'' @ x) = map_option ((#) (Character (CHR ''>''))) (tokenize x)"
  "tokenize (''&quot;'' @ x) = map_option ((#) (Character dq)) (tokenize x)"
  "tokenize (''&#039;'' @ x) = map_option ((#) (Character apos)) (tokenize x)"
  by (simp_all add: tokenize.simps charRef_def split: option.splits)

lemma tokenize_nul: "tokenize (nul # x) = tokenize x"
  by (simp add: tokenize.simps)

lemma tokenize_plain:
  "c \<noteq> CHR ''<'' \<Longrightarrow> c \<noteq> CHR ''&'' \<Longrightarrow> c \<noteq> nul \<Longrightarrow>
     tokenize (c # x) = map_option ((#) (Character c)) (tokenize x)"
  by (simp add: tokenize.simps split: option.splits)

lemma tokenize_renderChar:
  assumes "c \<noteq> nul"
  shows "tokenize (renderChar c @ x) =
           map_option ((#) (if c = nl then StartTag ''BR'' [] else Character c)) (tokenize x)"
proof -
  consider "c = nl" | "c = CHR ''&''" | "c = CHR ''<''" | "c = CHR ''>''" | "c = dq" | "c = apos"
    | "c \<noteq> nl" "c \<noteq> CHR ''&''" "c \<noteq> CHR ''<''" "c \<noteq> CHR ''>''" "c \<noteq> dq" "c \<noteq> apos"
    by blast
  then show ?thesis
  proof cases
    case 1
    then show ?thesis using tokenize_br [of x] by (simp add: renderChar_def)
  next
    case 2
    then show ?thesis using tokenize_entity(1) [of x] by (simp add: renderChar_def escapeChar_def)
  next
    case 3
    then show ?thesis using tokenize_entity(2) [of x] by (simp add: renderChar_def escapeChar_def)
  next
    case 4
    then show ?thesis using tokenize_entity(3) [of x] by (simp add: renderChar_def escapeChar_def)
  next
    case 5
    then show ?thesis using tokenize_entity(4) [of x] by (simp add: renderChar_def escapeChar_def)
  next
    case 6
    then show ?thesis using tokenize_entity(5) [of x] by (simp add: renderChar_def escapeChar_def)
  next
    case 7
    then show ?thesis
      using tokenize_plain [of c x] assms by (simp add: renderChar_def escapeChar_def)
  qed
qed

lemma tokenize_textHtml:
  "nul \<notin> set seg \<Longrightarrow>
     tokenize (textHtml seg @ x) = map_option ((@) (segmentTokens seg)) (tokenize x)"
proof (induction seg)
  case Nil
  show ?case by (simp add: textHtml_Nil segmentTokens_def option.map_ident)
next
  case (Cons c seg)
  then have c: "c \<noteq> nul"
    and IH: "tokenize (textHtml seg @ x) = map_option ((@) (segmentTokens seg)) (tokenize x)"
    by auto
  have "tokenize (textHtml (c # seg) @ x) = tokenize (renderChar c @ (textHtml seg @ x))"
    by (simp add: textHtml_Cons)
  also have "\<dots> = map_option ((#) (if c = nl then StartTag ''BR'' [] else Character c))
                     (tokenize (textHtml seg @ x))"
    by (rule tokenize_renderChar [OF c])
  also have "\<dots> = map_option ((@) (segmentTokens (c # seg))) (tokenize x)"
    by (cases "tokenize x") (simp_all add: IH segmentTokens_def)
  finally show ?case .
qed

lemma readAttrs_end: "readAttrs ('' />'' @ x) = Some ([], x)"
  by (simp add: readAttrs.simps)

lemma takeWhile_until:
  "y \<notin> set xs \<Longrightarrow> takeWhile (\<lambda>x. x \<noteq> y) (xs @ y # ys) = xs"
  by (induction xs) auto

lemma dropWhile_until:
  "y \<notin> set xs \<Longrightarrow> dropWhile (\<lambda>x. x \<noteq> y) (xs @ y # ys) = y # ys"
  by (induction xs) auto

lemma readAttrs_attr:
  assumes "name \<noteq> []" "list_all isAttrNameChar name" "dq \<notin> set v" "CHR ''&'' \<notin> set v"
    "nul \<notin> set v"
  shows "readAttrs (CHR '' '' # name @ CHR ''='' # dq # v @ dq # x) =
           map_option (\<lambda>(attrs, rest). ((name, v) # attrs, rest)) (readAttrs x)"
proof -
  obtain c cs where n: "name = c # cs" using assms(1) by (cases name) auto
  have ne: "\<not> isAttrNameChar (CHR ''='')" by (simp add: isAttrNameChar_def isAlnum_def)
  from assms(2) n have c: "isAttrNameChar c" by simp
  then have c': "c \<noteq> CHR ''>''" "c \<noteq> CHR ''/''" "c \<noteq> CHR '' ''"
    by (auto simp: isAttrNameChar_def isAlnum_def)
  let ?s = "name @ CHR ''='' # dq # v @ dq # x"
  have m: "many1 isAttrNameChar ?s = Some (CHR ''='' # dq # v @ dq # x)"
    using many1_class [OF assms(1,2) ne] by simp
  have t: "takeWhile isAttrNameChar ?s = name"
    using takeWhile_class [OF assms(2) ne] by simp
  have "readAttrs (CHR '' '' # ?s) = readAttrs ?s"
    by (simp add: readAttrs.simps)
  also have "\<dots> = readAttrs (c # (cs @ CHR ''='' # dq # v @ dq # x))"
    by (simp add: n)
  also have "\<dots> = map_option (\<lambda>(attrs, rest). ((name, v) # attrs, rest)) (readAttrs x)"
    apply (subst readAttrs.simps)
    using c' m [unfolded n] t [unfolded n] assms(3,4,5)
    by (simp add: n takeWhile_until dropWhile_until del: takeWhile.simps split: option.splits)
  finally show ?thesis .
qed

lemma readAttrs_imgAttrs:
  assumes "dq \<notin> set url" "CHR ''&'' \<notin> set url" "nul \<notin> set url"
  shows "readAttrs
           (CHR '' '' # ''data-emote-url'' @ CHR ''='' # dq # url @ dq #
            CHR '' '' # ''src'' @ CHR ''='' # dq # url @ dq #
            CHR '' '' # ''alt'' @ CHR ''='' # dq # ''7TV emote'' @ dq #
            CHR '' '' # ''style'' @ CHR ''='' # dq #
              ''height:1.5rem;width:1.5rem;display:inline-block;vertical-align:text-bottom;''
              @ dq # '' />'' @ x)
         = Some (imgAttrs url, x)"
proof -
  have n1: "''data-emote-url'' \<noteq> []" "list_all isAttrNameChar ''data-emote-url''"
    by (simp_all add: isAttrNameChar_def isAlnum_def)
  have n2: "''src'' \<noteq> []" "list_all isAttrNameChar ''src''"
    by (simp_all add: isAttrNameChar_def isAlnum_def)
  have n3: "''alt'' \<noteq> []" "list_all isAttrNameChar ''alt''"
    by (simp_all add: isAttrNameChar_def isAlnum_def)
  have n4: "''style'' \<noteq> []" "list_all isAttrNameChar ''style''"
    by (simp_all add: isAttrNameChar_def isAlnum_def)
  have v3: "dq \<notin> set ''7TV emote''" "CHR ''&'' \<notin> set ''7TV emote''"
    "nul \<notin> set ''7TV emote''"
    by simp_all
  have v4: "dq \<notin> set ''height:1.5rem;width:1.5rem;display:inline-block;vertical-align:text-bottom;''"
    "CHR ''&'' \<notin> set ''height:1.5rem;width:1.5rem;display:inline-block;vertical-align:text-bottom;''"
    "nul \<notin> set ''height:1.5rem;width:1.5rem;display:inline-block;vertical-align:text-bottom;''"
    by simp_all
  show ?thesis
    by (simp only: readAttrs_attr [OF n1 assms] readAttrs_attr [OF n2 assms]
        readAttrs_attr [OF n3 v3] readAttrs_attr [OF n4 v4] readAttrs_end
        option.map prod.case imgAttrs_def)
qed

lemma tagOpen_img: "tagOpen (''img'' @ CHR '' '' # x) = Some (''IMG'', CHR '' '' # x)"
  by (simp add: tagOpen_def many1_def isAlnum_def)

lemma tokenize_imgTag:
  assumes "dq \<notin> set url" "CHR ''&'' \<notin> set url" "nul \<notin> set url"
  shows "tokenize (imgTag url @ x) = map_option ((#) (StartTag ''IMG'' (imgAttrs url))) (tokenize x)"
proof -
  let ?attrs = "CHR '' '' # ''data-emote-url'' @ CHR ''='' # dq # url @ dq #
            CHR '' '' # ''src'' @ CHR ''='' # dq # url @ dq #
            CHR '' '' # ''alt'' @ CHR ''='' # dq # ''7TV emote'' @ dq #
            CHR '' '' # ''style'' @ CHR ''='' # dq #
              ''height:1.5rem;width:1.5rem;display:inline-block;vertical-align:text-bottom;''
              @ dq # '' />'' @ x"
  have "imgTag url @ x = CHR ''<'' # (''img'' @ ?attrs)"
    by (simp add: imgTag_def)
  moreover have "tagOpen (''img'' @ ?attrs) = Some (''IMG'', ?attrs)"
    by (rule tagOpen_img)
  ultimately show ?thesis
    using readAttrs_imgAttrs [OF assms, of x]
    by (simp only: tokenize.simps) (simp split: option.splits)
qed

lemma serialize_buildNodes:
  "concat (map serializeEditorContent (buildNodes ts)) = concat (map tokenText ts)"
proof (induction ts rule: buildNodes.induct)
  case 1
  show ?case by simp
next
  case (2 c ts)
  then show ?case
    by (cases "buildNodes ts") (auto split: node.splits)
next
  case (3 tagName attrs ts)
  then show ?case by simp
qed

lemma tokenText_segmentTokens: "concat (map tokenText (segmentTokens seg)) = seg"
  by (induction seg) (simp_all add: segmentTokens_def)

lemma tokenText_img: "tokenText (StartTag ''IMG'' (imgAttrs url)) = url"
  by (simp add: imgAttrs_def datasetEmoteUrl_def)

lemma isEmoteUrl_chars:
  assumes "isEmoteUrl u"
  shows "set u \<subseteq> {c. isAlnum c} \<union> {CHR '':'', CHR ''/'', CHR ''.''}"
proof -
  from assms obtain scheme ident scale ext where
    u: "u = scheme @ ''://cdn.7tv.app/emote/'' @ ident @ ''/'' @ scale @ ''x.'' @ ext"
    and s: "scheme \<in> {''http'', ''https''}"
    and i: "list_all isAlnum ident"
    and d: "list_all isDigit scale"
    and e: "ext \<in> {''webp'', ''png'', ''avif''}"
    unfolding isEmoteUrl_def by auto
  have dig: "isDigit c \<Longrightarrow> isAlnum c" for c
    by (auto simp: isDigit_def isAlnum_def)
  have 1: "set scheme \<subseteq> {c. isAlnum c}" using s by (auto simp: isAlnum_def)
  have 2: "set ext \<subseteq> {c. isAlnum c}" using e by (auto simp: isAlnum_def)
  have 3: "set ident \<subseteq> {c. isAlnum c}" using i by (auto simp: list_all_iff)
  have 4: "set scale \<subseteq> {c. isAlnum c}" using d dig by (auto simp: list_all_iff)
  have 5: "set ''://cdn.7tv.app/emote/'' \<subseteq> {c. isAlnum c} \<union> {CHR '':'', CHR ''/'', CHR ''.''}"
    by (simp add: isAlnum_def)
  have 6: "set ''x.'' \<subseteq> {c. isAlnum c} \<union> {CHR '':'', CHR ''/'', CHR ''.''}"
    by (simp add: isAlnum_def)
  have 7: "set ''/'' \<subseteq> {c. isAlnum c} \<union> {CHR '':'', CHR ''/'', CHR ''.''}"
    by simp
  show ?thesis
    unfolding u set_append using 1 2 3 4 5 6 7 by blast
qed

lemma isEmoteUrl_plain:
  assumes "isEmoteUrl u"
  shows "dq \<notin> set u \<and> CHR ''&'' \<notin> set u \<and> nul \<notin> set u \<and> cr \<notin> set u"
proof -
  have "\<not> isAlnum dq" "\<not> isAlnum (CHR ''&'')" "\<not> isAlnum nul" "\<not> isAlnum cr"
    by (simp_all add: isAlnum_def)
  with isEmoteUrl_chars [OF assms] show ?thesis by auto
qed

section \<open>Round trip\<close>

lemma tokenize_renderContentHtml:
  "nul \<notin> set ct \<Longrightarrow>
     \<exists>ts. tokenize (renderContentHtml ct) = Some ts \<and> concat (map tokenText ts) = ct"
proof (induction "length ct" arbitrary: ct rule: less_induct)
  case less
  show ?case
  proof (cases "findMatch ct")
    case None
    have "tokenize (renderContentHtml ct) = Some (segmentTokens ct)"
      using tokenize_textHtml [OF less.prems, of "[]"]
      by (simp add: renderContentHtml_None [OF None] tokenize.simps)
    then show ?thesis by (simp add: tokenText_segmentTokens)
  next
    case (Some p)
    obtain i n where p: "p = (i, n)" by (cases p)
    note f = Some [unfolded p]
    let ?pre = "take i ct" and ?url = "take n (drop i ct)" and ?post = "drop (i + n) ct"
    from findMatch_Some [OF f] have e: "emoteAt (drop i ct) = Some n" by simp
    from emoteAt_bounds [OF e] have b: "0 < n" "n \<le> length ct - i" by simp_all
    from findMatch_Some [OF f] have i: "i < length ct" by simp
    from e have "isEmoteUrl ?url" by (simp add: emoteAt_iff)
    from isEmoteUrl_plain [OF this]
    have u: "dq \<notin> set ?url" "CHR ''&'' \<notin> set ?url" "nul \<notin> set ?url"
      by simp_all
    have split: "ct = ?pre @ ?url @ ?post"
      by (metis append_take_drop_id drop_drop add.commute)
    have pre: "nul \<notin> set ?pre"
      using less.prems by (auto dest: in_set_takeD)
    have post: "nul \<notin> set ?post"
      using less.prems by (auto dest: in_set_dropD)
    have "length ?post < length ct" using b i by simp
    from less.hyps [OF this post] obtain ts where
      ts: "tokenize (renderContentHtml ?post) = Some ts" "concat (map tokenText ts) = ?post"
      by blast
    have "tokenize (renderContentHtml ct)
            = Some (segmentTokens ?pre @ StartTag ''IMG'' (imgAttrs ?url) # ts)"
      by (simp only: renderContentHtml_Some [OF f] tokenize_textHtml [OF pre]
          tokenize_imgTag [OF u] ts(1) option.map append_Cons append_Nil)
    moreover have "concat (map tokenText (segmentTokens ?pre @ StartTag ''IMG'' (imgAttrs ?url) # ts))
            = ?pre @ ?url @ ?post"
      by (simp only: map_append concat_append list.map concat.simps tokenText_segmentTokens
          tokenText_img ts(2))
    ultimately show ?thesis using split by simp
  qed
qed

lemma normalizeNewlines_id: "cr \<notin> set s \<Longrightarrow> normalizeNewlines s = s"
  by (induction s rule: normalizeNewlines.induct) auto

lemma renderChar_cr: "c \<noteq> cr \<Longrightarrow> cr \<notin> set (renderChar c)"
  by (simp add: renderChar_def escapeChar_def)

lemma textHtml_cr: "cr \<notin> set s \<Longrightarrow> cr \<notin> set (textHtml s)"
  by (induction s) (auto simp: textHtml_Nil textHtml_Cons dest: renderChar_cr [OF not_sym])

lemma imgTag_cr: "cr \<notin> set u \<Longrightarrow> cr \<notin> set (imgTag u)"
  by (simp add: imgTag_def)

lemma renderContentHtml_cr:
  "cr \<notin> set ct \<Longrightarrow> cr \<notin> set (renderContentHtml ct)"
proof (induction "length ct" arbitrary: ct rule: less_induct)
  case less
  show ?case
  proof (cases "findMatch ct")
    case None
    then show ?thesis
      using textHtml_cr [OF less.prems] by (simp add: renderContentHtml_None)
  next
    case (Some p)
    obtain i n where p: "p = (i, n)" by (cases p)
    note f = Some [unfolded p]
    let ?pre = "take i ct" and ?url = "take n (drop i ct)" and ?post = "drop (i + n) ct"
    from findMatch_Some [OF f] have e: "emoteAt (drop i ct) = Some n"
      and i: "i < length ct" by simp_all
    from emoteAt_bounds [OF e] have b: "0 < n" by simp
    have pre: "cr \<notin> set ?pre"
      using less.prems by (auto dest: in_set_takeD)
    have url: "cr \<notin> set ?url"
      using less.prems by (auto dest: in_set_takeD in_set_dropD)
    have post: "cr \<notin> set ?post"
      using less.prems by (auto dest: in_set_dropD)
    have "length ?post < length ct" using b i by simp
    from less.hyps [OF this post] textHtml_cr [OF pre] imgTag_cr [OF url]
    show ?thesis
      by (simp only: renderContentHtml_Some [OF f] set_append Un_iff simp_thms not_False_eq_True)
  qed
qed

lemma parseFragment_imgTag:
  assumes "isEmoteUrl u"
  shows "parseFragment (imgTag u) = Some [Element ''IMG'' (imgAttrs u) []]"
proof -
  from isEmoteUrl_plain [OF assms]
  have u: "dq \<notin> set u" "CHR ''&'' \<notin> set u" "nul \<notin> set u" "cr \<notin> set u"
    by simp_all
  have "tokenize (imgTag u) = Some [StartTag ''IMG'' (imgAttrs u)]"
    using tokenize_imgTag [OF u(1,2,3), of "[]"] by (simp add: tokenize.simps)
  then show ?thesis
    by (simp add: parseFragment_def normalizeNewlines_id [OF imgTag_cr [OF u(4)]])
qed

lemma hasImgTag_append_right: "hasImgTag b \<Longrightarrow> hasImgTag (a @ b)"
  by (induction a) simp_all

lemma hasImgTag_iff: "hasImgTag (renderContentHtml v) \<longleftrightarrow> (\<exists>j. matchStartsAt v j)"
proof (cases "findMatch v")
  case None
  then show ?thesis
    using findMatch_None_matchStartsAt [of v]
    by (simp add: renderContentHtml_None textHtml_no_img)
next
  case (Some p)
  obtain i n where p: "p = (i, n)" by (cases p)
  note f = Some [unfolded p]
  from findMatch_Some [OF f] have "emoteAt (drop i v) \<noteq> None" by simp
  then have "\<exists>j. matchStartsAt v j" by (auto simp: matchStartsAt_iff)
  moreover have "hasImgTag (renderContentHtml v)"
    by (simp only: renderContentHtml_Some [OF f] hasImgTag_append_right hasImgTag_imgTag)
  ultimately show ?thesis by simp
qed

section \<open>Properties of mention validation\<close>

lemma validateLoop_eq:
  "validateLoop validate ms validated acts =
     (validated @ List.map_filter (resolveMention validate) ms,
      acts @ map (\<lambda>m. ValidateCall (pubkey m)) ms)"
  by (induction ms arbitrary: validated acts)
    (simp_all add: List.map_filter_simps resolveMention_def Let_def split: option.splits)

section \<open>Properties of the emoji query\<close>

lemma not_query_colon: "\<not> isQueryChar (CHR '':'')"
  by (simp add: isQueryChar_def isWordChar_def isAlnum_def)

lemma not_space_colon: "\<not> isSpace (CHR '':'')"
  by (simp add: isSpace_def)

lemma takeWhile_all_id: "list_all P xs \<Longrightarrow> takeWhile P xs = xs"
  by (simp add: list_all_iff)

lemma colonQuery_iff:
  "colonQuery s = Some q \<longleftrightarrow> s = CHR '':'' # q \<and> list_all isQueryChar q"
proof (cases s)
  case Nil
  then show ?thesis by (simp add: colonQuery_def)
next
  case (Cons c r)
  show ?thesis
  proof (cases "list_all isQueryChar r")
    case True
    then have "dropWhile isQueryChar r = []"
      by (simp add: list_all_iff)
    with Cons True show ?thesis by (auto simp: colonQuery_def takeWhile_all_id)
  next
    case False
    then have "dropWhile isQueryChar r \<noteq> []" by (simp add: list_all_iff)
    with Cons False show ?thesis by (auto simp: colonQuery_def)
  qed
qed

lemma colonQuery_inner:
  "colonQuery (pre @ CHR '':'' # q) = Some q' \<Longrightarrow> pre = []"
proof (rule ccontr)
  assume a: "colonQuery (pre @ CHR '':'' # q) = Some q'" and "pre \<noteq> []"
  then obtain c r where "pre = c # r" by (cases pre) auto
  with a have "list_all isQueryChar (r @ CHR '':'' # q)"
    by (simp add: colonQuery_iff)
  then show False by (simp add: not_query_colon)
qed

lemma queryFrom_sound:
  "queryFrom b s = Some q \<Longrightarrow>
     \<exists>pre. s = pre @ CHR '':'' # q \<and> list_all isQueryChar q
          \<and> (if pre = [] then b else isSpace (last pre))"
proof (induction s arbitrary: b)
  case Nil
  then show ?case by (simp add: queryAt_def colonQuery_def split: if_splits)
next
  case (Cons c cs)
  show ?case
  proof (cases "queryAt b (c # cs)")
    case None
    with Cons.prems have "queryFrom False cs = Some q" by simp
    from Cons.IH [OF this] obtain pre where
      p: "cs = pre @ CHR '':'' # q" "list_all isQueryChar q" "pre \<noteq> []" "isSpace (last pre)"
      by (auto split: if_splits)
    then have "c # cs = (c # pre) @ CHR '':'' # q \<and> list_all isQueryChar q
          \<and> (if c # pre = [] then b else isSpace (last (c # pre)))"
      by simp
    then show ?thesis by blast
  next
    case (Some q')
    with Cons.prems have q': "q' = q" by simp
    from Some [unfolded q'] consider "b" "colonQuery (c # cs) = Some q"
      | "isSpace c" "colonQuery cs = Some q"
      by (auto simp: queryAt_def split: option.splits if_splits)
    then show ?thesis
    proof cases
      case 1
      then have "c # cs = [] @ CHR '':'' # q \<and> list_all isQueryChar q
          \<and> (if ([]::string) = [] then b else isSpace (last []))"
        by (simp add: colonQuery_iff)
      then show ?thesis by blast
    next
      case 2
      then have "c # cs = [c] @ CHR '':'' # q \<and> list_all isQueryChar q
          \<and> (if [c] = [] then b else isSpace (last [c]))"
        by (simp add: colonQuery_iff)
      then show ?thesis by blast
    qed
  qed
qed

lemma queryFrom_complete:
  "list_all isQueryChar q \<Longrightarrow> (if pre = [] then b else isSpace (last pre)) \<Longrightarrow>
     queryFrom b (pre @ CHR '':'' # q) = Some q"
proof (induction pre arbitrary: b)
  case Nil
  then have "colonQuery (CHR '':'' # q) = Some q" by (simp add: colonQuery_iff)
  with Nil show ?case by (simp add: queryAt_def)
next
  case (Cons c pre)
  have a1: "colonQuery (c # pre @ CHR '':'' # q) = None"
    using colonQuery_inner [of "c # pre" q] by (cases "colonQuery (c # pre @ CHR '':'' # q)") auto
  show ?case
  proof (cases "pre = []")
    case True
    with Cons.prems have "isSpace c" "colonQuery (pre @ CHR '':'' # q) = Some q"
      by (simp_all add: colonQuery_iff)
    with a1 show ?thesis by (simp add: queryAt_def)
  next
    case False
    then have "colonQuery (pre @ CHR '':'' # q) = None"
      using colonQuery_inner [of pre q] by (cases "colonQuery (pre @ CHR '':'' # q)") auto
    with a1 have "queryAt b (c # pre @ CHR '':'' # q) = None"
      by (simp add: queryAt_def)
    moreover have "queryFrom False (pre @ CHR '':'' # q) = Some q"
      using Cons.IH [OF Cons.prems(1), of False] Cons.prems(2) False by simp
    ultimately show ?thesis by simp
  qed
qed

lemma emojiQueryExec_iff:
  "emojiQueryExec u = Some q \<longleftrightarrow>
     (\<exists>pre. u = pre @ CHR '':'' # q \<and> (pre = [] \<or> isSpace (last pre))
           \<and> list_all isQueryChar q)"
proof
  assume "emojiQueryExec u = Some q"
  from queryFrom_sound [OF this [unfolded emojiQueryExec_def]]
  show "\<exists>pre. u = pre @ CHR '':'' # q \<and> (pre = [] \<or> isSpace (last pre))
           \<and> list_all isQueryChar q"
    by (auto split: if_splits)
next
  assume "\<exists>pre. u = pre @ CHR '':'' # q \<and> (pre = [] \<or> isSpace (last pre))
           \<and> list_all isQueryChar q"
  then obtain pre where "u = pre @ CHR '':'' # q" "pre = [] \<or> isSpace (last pre)"
    "list_all isQueryChar q" by blast
  then show "emojiQueryExec u = Some q"
    using queryFrom_complete [of q pre True] by (auto simp: emojiQueryExec_def)
qed

lemma emojiQueryExec_no_colon:
  assumes "CHR '':'' \<notin> set u"
  shows "emojiQueryExec u = None"
proof (cases "emojiQueryExec u")
  case None
  then show ?thesis .
next
  case (Some q)
  then obtain pre where "u = pre @ CHR '':'' # q"
    unfolding emojiQueryExec_iff by blast
  with assms show ?thesis by simp
qed

lemma last_colon_unique:
  assumes "list_all isQueryChar q" "list_all isQueryChar q'"
    "pre @ CHR '':'' # q = pre' @ CHR '':'' # q'"
  shows "pre = pre' \<and> q = q'"
proof -
  from assms(3) have "rev q @ CHR '':'' # rev pre = rev q' @ CHR '':'' # rev pre'"
    by (metis rev_append rev.simps(2) append_assoc append_Cons append_Nil)
  moreover have "takeWhile isQueryChar (rev q @ CHR '':'' # rev pre) = rev q"
    using assms(1) not_query_colon by (intro takeWhile_class) (simp_all add: list_all_iff)
  moreover have "takeWhile isQueryChar (rev q' @ CHR '':'' # rev pre') = rev q'"
    using assms(2) not_query_colon by (intro takeWhile_class) (simp_all add: list_all_iff)
  ultimately have "rev q = rev q'" by simp
  then have "q = q'" by simp
  with assms(3) show ?thesis by simp
qed

lemma emojiQueryExec_unspaced:
  assumes "list_all isQueryChar q" "pre \<noteq> []" "\<not> isSpace (last pre)"
  shows "emojiQueryExec (pre @ CHR '':'' # q) = None"
proof (cases "emojiQueryExec (pre @ CHR '':'' # q)")
  case None
  then show ?thesis .
next
  case (Some q')
  then obtain pre' where p: "pre @ CHR '':'' # q = pre' @ CHR '':'' # q'"
    "pre' = [] \<or> isSpace (last pre')" "list_all isQueryChar q'"
    unfolding emojiQueryExec_iff by blast
  from last_colon_unique [OF assms(1) p(3) p(1)] have "pre = pre'" by simp
  with p(2) assms(2,3) show ?thesis by simp
qed

lemma foldl_ValidateCall:
  "foldl applyMentionAction s (map (\<lambda>m. ValidateCall (pubkey m)) ms) = s"
  by (induction ms) simp_all

lemma mentionsEffect_at:
  "CHR ''@'' \<in> set (content s) \<Longrightarrow>
     mentionsEffect detect validate s =
       map (\<lambda>m. ValidateCall (pubkey m)) (detect (content s))
       @ [SetValidatedMentions (List.map_filter (resolveMention validate) (detect (content s)))]"
  by (simp add: mentionsEffect_def validateMentions_def validateLoop_eq)

section \<open>Claims\<close>

text \<open>
  Claim C1. As stated the claim fails: the parser of the editable surface reads CR
  as a line feed and drops NUL, so a text with a CR LF line ending comes back with
  two newlines and a NUL is lost. What holds: for every text free of CR and NUL,
  serializing the nodes that the surface builds from the rendered markup gives back
  the text without its trailing newlines. So such a text that does not end in a
  newline comes back unchanged, and the content that a serialization produced is a
  fixed point of rendering and serializing again.
\<close>

theorem render_serialize_roundtrip:
  assumes "cr \<notin> set ct" "nul \<notin> set ct"
  shows "\<exists>nodes. parseFragment (renderContentHtml ct) = Some nodes
           \<and> serializeChildren nodes = stripTrailingNewlines ct
           \<and> (\<not> endsWith ct nl \<longrightarrow> serializeChildren nodes = ct)
           \<and> (ct = serializeChildren children \<longrightarrow> serializeChildren nodes = ct)
           \<and> (editor st \<noteq> None \<longrightarrow>
                 updateEditorFromContent ct st = Some (st\<lparr>editor := Some nodes\<rparr>)
                 \<and> content (updateContentFromEditor (st\<lparr>editor := Some nodes\<rparr>))
                     = stripTrailingNewlines ct)"
proof -
  from tokenize_renderContentHtml [OF assms(2)] obtain ts where
    ts: "tokenize (renderContentHtml ct) = Some ts" "concat (map tokenText ts) = ct"
    by blast
  let ?nodes = "buildNodes ts"
  have n: "normalizeNewlines (renderContentHtml ct) = renderContentHtml ct"
    using renderContentHtml_cr [OF assms(1)] by (rule normalizeNewlines_id)
  have 1: "parseFragment (renderContentHtml ct) = Some ?nodes"
    by (simp add: parseFragment_def n ts(1))
  have 2: "serializeChildren ?nodes = stripTrailingNewlines ct"
    by (simp add: serializeChildren_strip serialize_buildNodes ts(2))
  have 3: "\<not> endsWith ct nl \<longrightarrow> serializeChildren ?nodes = ct"
    by (simp add: 2 stripTrailingNewlines_id)
  have 4: "editor st \<noteq> None \<longrightarrow>
             updateEditorFromContent ct st = Some (st\<lparr>editor := Some ?nodes\<rparr>)
             \<and> content (updateContentFromEditor (st\<lparr>editor := Some ?nodes\<rparr>))
                 = stripTrailingNewlines ct"
    by (auto simp: updateEditorFromContent_def 1 updateContentFromEditor_def 2 Let_def)
  have 5: "ct = serializeChildren children \<longrightarrow> serializeChildren ?nodes = ct"
    using 3 serializeChildren_no_trailing [of children] by auto
  from 1 2 3 4 5 show ?thesis by blast
qed

theorem render_serialize_roundtrip_witness:
  "\<exists>nodes. parseFragment
       (renderContentHtml (''a<b'' @ [nl] @ ''https://cdn.7tv.app/emote/abc/1x.webp'' @ '' &c''
          @ [nl, nl])) = Some nodes
     \<and> serializeChildren nodes
         = ''a<b'' @ [nl] @ ''https://cdn.7tv.app/emote/abc/1x.webp'' @ '' &c''"
proof -
  let ?t = "''a<b'' @ [nl] @ ''https://cdn.7tv.app/emote/abc/1x.webp'' @ '' &c'' @ [nl, nl]"
  have a: "cr \<notin> set ?t" "nul \<notin> set ?t" by simp_all
  have s: "stripTrailingNewlines ?t
             = ''a<b'' @ [nl] @ ''https://cdn.7tv.app/emote/abc/1x.webp'' @ '' &c''"
    by (simp add: stripTrailingNewlines_def)
  from render_serialize_roundtrip [OF a] s show ?thesis by metis
qed

theorem render_serialize_roundtrip_counterexample:
  "parseFragment (renderContentHtml (''a'' @ [cr, nl] @ ''b''))
     = Some [TextNode (''a'' @ [nl]), Element ''BR'' [] [], TextNode ''b'']
   \<and> serializeChildren [TextNode (''a'' @ [nl]), Element ''BR'' [] [], TextNode ''b'']
       = ''a'' @ [nl, nl] @ ''b''
   \<and> stripTrailingNewlines (''a'' @ [cr, nl] @ ''b'') = ''a'' @ [cr, nl] @ ''b''
   \<and> ''a'' @ [nl, nl] @ ''b'' \<noteq> ''a'' @ [cr, nl] @ ''b''
   \<and> parseFragment (renderContentHtml (''a'' @ [nul] @ ''b'')) = Some [TextNode ''ab'']
   \<and> serializeChildren [TextNode ''ab''] = ''ab''
   \<and> stripTrailingNewlines (''a'' @ [nul] @ ''b'') = ''a'' @ [nul] @ ''b''
   \<and> ''ab'' \<noteq> ''a'' @ [nul] @ ''b''"
  by code_simp

text \<open>
  Claim C2. As stated the claim fails: an element that is neither image, line break
  nor block container (a SPAN, say) contributes what its children contribute, not the
  empty string. The serializer equals the reference definition with that one change:
  text contributes its text; an image the URL of its data attribute, or nothing when
  the attribute is absent; a line break one newline; DIV and P their children's
  contributions and one newline; any other element its children's contributions;
  a node that is neither text nor element nothing.
\<close>

theorem serializeEditorContent_reference:
  "serializeEditorContent n = serializeRef n"
  by (rule serializeEditorContent_ref)

theorem serializeEditorContent_spec_counterexample:
  "serializeEditorContent (Element ''SPAN'' [] [TextNode ''x''])
     \<noteq> serializeSpec (Element ''SPAN'' [] [TextNode ''x''])"
  by simp

text \<open>
  Claim C3. The escaper replaces \<open>&\<close> first and then \<open><\<close>, \<open>>\<close>, the double quote and
  the apostrophe, and the result is what a single pass escaping each character once
  gives: no entity is escaped again. The escaped text has none of \<open><\<close>, \<open>>\<close>, double
  quote, apostrophe, and each of its \<open>&\<close> starts one of the five entities. In the
  markup, a character of a text segment becomes its entity, the line-break marker
  (for a newline), or itself: the markup of a segment has no double quote and no
  apostrophe, each of its \<open>&\<close> starts an entity, its \<open><\<close> and \<open>>\<close> come from line-break
  markers only, and for a segment without newlines it is the escaped text.
\<close>

theorem escapeHtml_entities:
  "escapeHtml s = concat (map escapeChar s)
   \<and> set (escapeHtml s) \<inter> {CHR ''<'', CHR ''>'', dq, apos} = {}
   \<and> ampersandsEscaped (escapeHtml s)
   \<and> textHtml s = concat (map renderChar s)
   \<and> set (textHtml s) \<inter> {dq, apos} = {}
   \<and> ampersandsEscaped (textHtml s)
   \<and> (nl \<notin> set s \<longrightarrow> textHtml s = escapeHtml s)
   \<and> renderChar nl = ''<br/>''
   \<and> (c \<noteq> nl \<longrightarrow>
        renderChar c = escapeChar c
        \<and> set (renderChar c) \<inter> {CHR ''<'', CHR ''>'', dq, apos} = {})"
proof -
  have 1: "nl \<notin> set s \<longrightarrow> textHtml s = escapeHtml s"
    using textHtml_no_newline [of s] by blast
  have 2: "renderChar nl = ''<br/>''"
    by (simp add: renderChar_def)
  have 3: "c \<noteq> nl \<longrightarrow>
        renderChar c = escapeChar c
        \<and> set (renderChar c) \<inter> {CHR ''<'', CHR ''>'', dq, apos} = {}"
    using escapeChar_reserved [of c] by (simp add: renderChar_def)
  from 1 2 3 show ?thesis
    by (simp only: escapeHtml_concat [symmetric] escapeHtml_reserved
        ampersandsEscaped_escapeHtml textHtml_concat [symmetric] textHtml_quotes
        ampersandsEscaped_textHtml simp_thms)
qed

theorem escapeHtml_entities_witness:
  "escapeHtml (''<script>&'' @ [dq, apos]) = ''&lt;script&gt;&amp;&quot;&#039;''
   \<and> set (escapeHtml (''<script>&'' @ [dq, apos])) \<inter> {CHR ''<'', CHR ''>'', dq, apos} = {}
   \<and> ampersandsEscaped (escapeHtml (''<script>&'' @ [dq, apos]))
   \<and> textHtml (''<script>&'' @ [dq, apos]) = ''&lt;script&gt;&amp;&quot;&#039;''"
proof -
  have e: "concat (map escapeChar (''<script>&'' @ [dq, apos])) = ''&lt;script&gt;&amp;&quot;&#039;''"
    by (simp add: escapeChar_def)
  have r: "concat (map renderChar (''<script>&'' @ [dq, apos])) = ''&lt;script&gt;&amp;&quot;&#039;''"
    by (simp add: renderChar_def escapeChar_def)
  note t = escapeHtml_entities [of "''<script>&'' @ [dq, apos]"]
  from t have h: "escapeHtml (''<script>&'' @ [dq, apos]) = ''&lt;script&gt;&amp;&quot;&#039;''"
    by (simp only: e)
  from t have h': "textHtml (''<script>&'' @ [dq, apos]) = ''&lt;script&gt;&amp;&quot;&#039;''"
    by (simp only: r)
  have b: "set ''&lt;script&gt;&amp;&quot;&#039;'' \<inter> {CHR ''<'', CHR ''>'', dq, apos} = {}"
    by simp
  have c: "ampersandsEscaped ''&lt;script&gt;&amp;&quot;&#039;''"
    by (simp add: entities_def)
  show ?thesis
    by (simp only: h h' b c simp_thms)
qed

text \<open>
  Claim C4. As stated the claim fails: the pattern is not anchored, so a URL that is
  not of the exact shape but starts with one that is (an emote URL followed by
  \<open>.jpg\<close>, say) gets an image placeholder for that prefix. What holds: the matcher
  of the renderer accepts a prefix exactly when it has the emote URL shape; the
  markup has an image tag exactly when some substring of the text has that shape; a
  text in which no substring has it is rendered as escaped text only; where the
  leftmost substring of that shape is \<open>u\<close>, the markup is the escaped text before
  it, the image placeholder of \<open>u\<close>, and the rendering of what follows \<open>u\<close>; and the
  placeholder of \<open>u\<close> is an image tag that the surface reads as one IMG element whose
  data attribute and source are \<open>u\<close>.
\<close>

theorem renderContentHtml_emotes:
  "(emoteAt s = Some n \<longleftrightarrow> n \<le> length s \<and> isEmoteUrl (take n s))
   \<and> ((\<forall>j. \<not> matchStartsAt v j) \<longrightarrow>
        renderContentHtml v = textHtml v \<and> \<not> hasImgTag (renderContentHtml v))
   \<and> (isEmoteUrl u \<and> (\<forall>j < length pre. \<not> matchStartsAt (pre @ u @ post) j) \<longrightarrow>
        renderContentHtml (pre @ u @ post) = textHtml pre @ imgTag u @ renderContentHtml post)
   \<and> (hasImgTag (renderContentHtml v) \<longleftrightarrow> (\<exists>j. matchStartsAt v j))
   \<and> (isEmoteUrl u \<longrightarrow>
        hasImgTag (imgTag u @ x)
        \<and> parseFragment (imgTag u) = Some [Element ''IMG'' (imgAttrs u) []]
        \<and> datasetEmoteUrl (imgAttrs u) = Some u
        \<and> map_of (imgAttrs u) ''src'' = Some u)"
proof (intro conjI impI)
  show "emoteAt s = Some n \<longleftrightarrow> n \<le> length s \<and> isEmoteUrl (take n s)"
    by (rule emoteAt_iff)
next
  assume a: "\<forall>j. \<not> matchStartsAt v j"
  then have "findMatch v = None"
    by (rule findMatch_None_matchStartsAt [THEN iffD2])
  then show "renderContentHtml v = textHtml v" by (rule renderContentHtml_None)
  then show "\<not> hasImgTag (renderContentHtml v)" by (simp add: textHtml_no_img)
next
  assume a: "isEmoteUrl u \<and> (\<forall>j < length pre. \<not> matchStartsAt (pre @ u @ post) j)"
  let ?v = "pre @ u @ post"
  from a have u: "isEmoteUrl u" by simp
  then have ne: "u \<noteq> []" by (auto simp: isEmoteUrl_def)
  have e: "emoteAt (drop (length pre) ?v) = Some (length u)"
    using emoteAt_complete [OF u, of post] by simp
  have l: "\<forall>j<length pre. emoteAt (drop j ?v) = None"
    using a by (simp add: matchStartsAt_iff)
  have "findMatch ?v = Some (length pre, length u)"
    using findMatch_leftmost [OF e l] ne by simp
  from renderContentHtml_Some [OF this] show
    "renderContentHtml ?v = textHtml pre @ imgTag u @ renderContentHtml post"
    by simp
next
  show "hasImgTag (renderContentHtml v) \<longleftrightarrow> (\<exists>j. matchStartsAt v j)"
    by (rule hasImgTag_iff)
next
  show "hasImgTag (imgTag u @ x)" by (rule hasImgTag_imgTag)
next
  assume "isEmoteUrl u"
  then show "parseFragment (imgTag u) = Some [Element ''IMG'' (imgAttrs u) []]"
    by (rule parseFragment_imgTag)
next
  show "datasetEmoteUrl (imgAttrs u) = Some u"
    by (simp add: imgAttrs_def datasetEmoteUrl_def)
next
  show "map_of (imgAttrs u) ''src'' = Some u"
    by (simp add: imgAttrs_def)
qed

theorem renderContentHtml_emotes_witness:
  "emoteAt ''https://cdn.7tv.app/emote/abc/1x.webp'' = Some 37
   \<and> renderContentHtml ''https://cdn.7tv.app/emote/abc/1x.jpg''
       = ''https://cdn.7tv.app/emote/abc/1x.jpg''
   \<and> \<not> hasImgTag (renderContentHtml ''https://cdn.7tv.app/emote/abc/1x.jpg'')
   \<and> renderContentHtml (''a<b '' @ ''https://cdn.7tv.app/emote/abc/1x.webp'' @ '' c'')
       = ''a&lt;b '' @ imgTag ''https://cdn.7tv.app/emote/abc/1x.webp'' @ '' c''
   \<and> hasImgTag (renderContentHtml
         (''a<b '' @ ''https://cdn.7tv.app/emote/abc/1x.webp'' @ '' c''))
   \<and> parseFragment (imgTag ''https://cdn.7tv.app/emote/abc/1x.webp'')
       = Some [Element ''IMG'' (imgAttrs ''https://cdn.7tv.app/emote/abc/1x.webp'') []]
   \<and> datasetEmoteUrl (imgAttrs ''https://cdn.7tv.app/emote/abc/1x.webp'')
       = Some ''https://cdn.7tv.app/emote/abc/1x.webp''
   \<and> map_of (imgAttrs ''https://cdn.7tv.app/emote/abc/1x.webp'') ''src''
       = Some ''https://cdn.7tv.app/emote/abc/1x.webp''"
proof -
  let ?u = "''https://cdn.7tv.app/emote/abc/1x.webp''"
  let ?j = "''https://cdn.7tv.app/emote/abc/1x.jpg''"
  have u: "isEmoteUrl ?u"
    unfolding isEmoteUrl_def
    by (rule exI [of _ "''https''"], rule exI [of _ "''abc''"], rule exI [of _ "''1''"],
        rule exI [of _ "''webp''"]) (simp add: isAlnum_def isDigit_def)
  have "findMatch ?j = None" by code_simp
  then have j: "\<forall>k. \<not> matchStartsAt ?j k"
    by (rule findMatch_None_matchStartsAt [THEN iffD1])
  have "findMatch '' c'' = None" by code_simp
  then have c: "\<forall>k. \<not> matchStartsAt '' c'' k"
    by (rule findMatch_None_matchStartsAt [THEN iffD1])
  have "findMatch (''a<b '' @ ?u @ '' c'') = Some (4, 37)" by code_simp
  from findMatch_Some [OF this]
  have "\<forall>k < 4. emoteAt (drop k (''a<b '' @ ?u @ '' c'')) = None" by blast
  then have p: "\<forall>k < length ''a<b ''. \<not> matchStartsAt (''a<b '' @ ?u @ '' c'') k"
    by (simp add: matchStartsAt_iff)
  have t1: "textHtml ?j = ?j" by code_simp
  have t2: "textHtml ''a<b '' = ''a&lt;b ''" by code_simp
  have t3: "textHtml '' c'' = '' c''" by code_simp
  have 1: "emoteAt ?u = Some 37"
    using renderContentHtml_emotes [of ?u 37] u by simp
  have 2: "renderContentHtml ?j = ?j \<and> \<not> hasImgTag (renderContentHtml ?j)"
    using renderContentHtml_emotes [of _ _ ?j] j t1 by simp
  have 3: "renderContentHtml '' c'' = '' c''"
    using renderContentHtml_emotes [of _ _ "'' c''"] c t3 by simp
  have 4: "renderContentHtml (''a<b '' @ ?u @ '' c'') = ''a&lt;b '' @ imgTag ?u @ '' c''"
    using renderContentHtml_emotes [of _ _ _ ?u "''a<b ''" "'' c''"] u p t2 3
    by (simp only: simp_thms)
  have "emoteAt (drop 4 (''a<b '' @ ?u @ '' c'')) = Some 37" by code_simp
  then have m: "\<exists>k. matchStartsAt (''a<b '' @ ?u @ '' c'') k"
    by (auto simp: matchStartsAt_iff intro: exI [of _ 4])
  have 5: "hasImgTag (renderContentHtml (''a<b '' @ ?u @ '' c''))"
    using renderContentHtml_emotes [of _ _ "''a<b '' @ ?u @ '' c''"] m by blast
  have 6: "parseFragment (imgTag ?u) = Some [Element ''IMG'' (imgAttrs ?u) []]
           \<and> datasetEmoteUrl (imgAttrs ?u) = Some ?u
           \<and> map_of (imgAttrs ?u) ''src'' = Some ?u"
    using renderContentHtml_emotes [of _ _ _ ?u] u by blast
  from 1 2 4 5 6 show ?thesis by blast
qed

theorem renderContentHtml_emotes_counterexample:
  "\<not> isEmoteUrl ''https://cdn.7tv.app/emote/abc/1x.png.jpg''
   \<and> renderContentHtml ''https://cdn.7tv.app/emote/abc/1x.png.jpg''
       = imgTag ''https://cdn.7tv.app/emote/abc/1x.png'' @ ''.jpg''
   \<and> hasImgTag (renderContentHtml ''https://cdn.7tv.app/emote/abc/1x.png.jpg'')"
proof -
  let ?u = "''https://cdn.7tv.app/emote/abc/1x.png.jpg''"
  have e: "emoteAt ?u = Some 36" by code_simp
  have "\<not> isEmoteUrl ?u"
  proof
    assume "isEmoteUrl ?u"
    then have "emoteAt ?u = Some (length ?u)"
      using emoteAt_complete [of ?u "[]"] by simp
    with e show False by simp
  qed
  moreover have r: "renderContentHtml ?u
       = imgTag ''https://cdn.7tv.app/emote/abc/1x.png'' @ ''.jpg''"
    by code_simp
  moreover have "hasImgTag (renderContentHtml ?u)"
    unfolding r by (rule hasImgTag_imgTag)
  ultimately show ?thesis by blast
qed

text \<open>
  Claim C5. The top-level serialization concatenates the contributions of the
  children of the editor root in document order and removes every trailing newline:
  where the concatenation is \<open>s\<close> followed by \<open>k\<close> newlines and \<open>s\<close> does not end in a
  newline, the new content is \<open>s\<close>.
\<close>

theorem updateContentFromEditor_trailing:
  assumes "editor st = Some children"
  shows "content (updateContentFromEditor st)
           = stripTrailingNewlines (concat (map serializeEditorContent children))
         \<and> lastContentRef (updateContentFromEditor st) = content (updateContentFromEditor st)
         \<and> (\<forall>s k. concat (map serializeEditorContent children) = s @ replicate k nl
                   \<and> \<not> endsWith s nl
               \<longrightarrow> content (updateContentFromEditor st) = s)"
  using assms
  by (simp add: updateContentFromEditor_def Let_def serializeChildren_strip
      stripTrailingNewlines_replicate)

theorem updateContentFromEditor_trailing_witness:
  "content (updateContentFromEditor
      \<lparr>content = ''old'', isSubmitting = False, validatedMentions = [],
       editor = Some [TextNode ''a'', Element ''BR'' [] [],
                      Element ''DIV'' [] [Element ''BR'' [] []]],
       lastContentRef = ''old'', emojiQuery = [], emojiRangeRef = None\<rparr>) = ''a''"
proof -
  let ?children = "[TextNode ''a'', Element ''BR'' [] [], Element ''DIV'' [] [Element ''BR'' [] []]]"
  let ?st = "\<lparr>content = ''old'', isSubmitting = False, validatedMentions = [],
       editor = Some ?children, lastContentRef = ''old'', emojiQuery = [],
       emojiRangeRef = None\<rparr>"
  have e: "editor ?st = Some ?children" by simp
  have c: "concat (map serializeEditorContent ?children) = ''a'' @ replicate 3 nl"
    by (simp add: numeral_3_eq_3)
  have n: "\<not> endsWith ''a'' nl" by (simp add: endsWith_def)
  from updateContentFromEditor_trailing [OF e] c n show ?thesis by blast
qed

text \<open>
  Claim C6. The code does not keep the claim: the guard of an invocation tests the
  in-flight flag that its render closed over, not the flag as the first invocation
  set it. Two invocations of the submit handler of one render, the first sender
  still outstanding, both pass the guard and call the sender twice, where one call
  is promised; only after the component has rendered again is the second invocation
  rejected and the sender called once.
\<close>

theorem handlePost_stale_flag:
  "sends (effects (run \<lparr>privateKey = Some ''key'', hideTransactionPopup = False\<rparr>
      \<lparr>current = \<lparr>content = ''hello'', isSubmitting = False, validatedMentions = [],
                  editor = None, lastContentRef = ''hello'', emojiQuery = [],
                  emojiRangeRef = None\<rparr>,
       rendered = \<lparr>content = ''hello'', isSubmitting = False, validatedMentions = [],
                  editor = None, lastContentRef = ''hello'', emojiQuery = [],
                  emojiRangeRef = None\<rparr>,
       inflight = [], effects = []\<rparr> [Submit, Submit])) = 2
   \<and> sends (effects (run \<lparr>privateKey = Some ''key'', hideTransactionPopup = False\<rparr>
      \<lparr>current = \<lparr>content = ''hello'', isSubmitting = False, validatedMentions = [],
                  editor = None, lastContentRef = ''hello'', emojiQuery = [],
                  emojiRangeRef = None\<rparr>,
       rendered = \<lparr>content = ''hello'', isSubmitting = False, validatedMentions = [],
                  editor = None, lastContentRef = ''hello'', emojiQuery = [],
                  emojiRangeRef = None\<rparr>,
       inflight = [], effects = []\<rparr> [Submit, Render, Submit])) = 1"
  by (simp add: run_def handlePostInvoke_def canSubmit_def trim_def isSpace_def sends_def)

text \<open>
  Claim C7. As stated the claim fails on one exit path: an invocation rejected at the
  entry guard while another submission is outstanding returns early and leaves the
  in-flight flag set. What holds: when the sender throws, the failure is caught, an
  error notification with the failure's message (or the generic text) is raised, the
  content is unchanged and the flag is cleared; whenever an invocation has passed the
  guard, the flag is cleared when its sender ends, whatever the outcome and whatever
  the state then; an invocation rejected at the guard leaves the state as it was. So,
  starting with the flag clear, the flag is set only while a sender is outstanding,
  whatever the values the handlers closed over.
\<close>

theorem handlePost_failure:
  assumes "canSubmit e s"
  shows "content (fst (handlePost e (Rejected err) s)) = content s
         \<and> \<not> isSubmitting (fst (handlePost e (Rejected err) s))
         \<and> ToastError ''An error occurred when sending transaction''
              (case err of Error message \<Rightarrow> message | NotAnError \<Rightarrow> ''Unknown error occurred'')
             \<in> set (snd (handlePost e (Rejected err) s))
         \<and> \<not> isSubmitting (fst (handlePost e out s))
         \<and> \<not> isSubmitting (fst (handlePostSettle e posted out s'))
         \<and> (\<not> canSubmit e s' \<longrightarrow> handlePost e out s' = (s', []))
         \<and> (\<not> isSubmitting s' \<and>
              isSubmitting (current (run e \<lparr>current = s', rendered = r, inflight = [],
                                           effects = []\<rparr> evs))
              \<longrightarrow> inflight (run e \<lparr>current = s', rendered = r, inflight = [],
                                    effects = []\<rparr> evs) \<noteq> [])"
proof -
  have "\<not> isSubmitting s' \<and>
              isSubmitting (current (run e \<lparr>current = s', rendered = r, inflight = [],
                                           effects = []\<rparr> evs))
              \<longrightarrow> inflight (run e \<lparr>current = s', rendered = r, inflight = [],
                                    effects = []\<rparr> evs) \<noteq> []"
    using run_flag_outstanding
      [of "\<lparr>current = s', rendered = r, inflight = [], effects = []\<rparr>" e evs]
    by simp
  with assms show ?thesis
    by (simp add: handlePost_def handlePostStart_def handlePostSettle_def
      split: outcome.splits option.splits)
qed

theorem handlePost_failure_witness:
  "content (fst (handlePost \<lparr>privateKey = Some ''key'', hideTransactionPopup = False\<rparr>
      (Rejected (Error ''no funds''))
      \<lparr>content = ''hello'', isSubmitting = False, validatedMentions = [],
       editor = None, lastContentRef = ''hello'', emojiQuery = [],
       emojiRangeRef = None\<rparr>)) = ''hello''
   \<and> ToastError ''An error occurred when sending transaction'' ''no funds''
       \<in> set (snd (handlePost \<lparr>privateKey = Some ''key'', hideTransactionPopup = False\<rparr>
      (Rejected (Error ''no funds''))
      \<lparr>content = ''hello'', isSubmitting = False, validatedMentions = [],
       editor = None, lastContentRef = ''hello'', emojiQuery = [],
       emojiRangeRef = None\<rparr>))"
proof -
  let ?e = "\<lparr>privateKey = Some ''key'', hideTransactionPopup = False\<rparr>"
  let ?s = "\<lparr>content = ''hello'', isSubmitting = False, validatedMentions = [],
             editor = None, lastContentRef = ''hello'', emojiQuery = [],
             emojiRangeRef = None\<rparr>"
  have c: "canSubmit ?e ?s" by (simp add: canSubmit_def trim_def isSpace_def)
  from handlePost_failure [OF c, of "Error ''no funds''"] show ?thesis by simp
qed

theorem handlePost_early_return_counterexample:
  "isSubmitting (fst (handlePost \<lparr>privateKey = Some ''key'', hideTransactionPopup = False\<rparr>
      (Fulfilled None)
      \<lparr>content = ''hello'', isSubmitting = True, validatedMentions = [],
       editor = None, lastContentRef = ''hello'', emojiQuery = [],
       emojiRangeRef = None\<rparr>))"
  by (simp add: handlePost_def handlePostStart_def canSubmit_def)

text \<open>
  Claim C8. When the content has no \<open>@\<close>, the effect sets the validated mentions to
  the empty list and calls the validator not at all. When it has one, the validator
  is called once for each extracted candidate, in order; the candidates that resolve
  to no key are dropped; and the list of the resolved ones, in order, replaces the
  validated mentions whatever they were.
\<close>

theorem mentionsEffect_gating:
  "(CHR ''@'' \<notin> set (content s) \<longrightarrow>
      mentionsEffect detect validate s = [SetValidatedMentions []]
      \<and> validatedMentions (runMentionsEffect detect validate s) = [])
   \<and> (CHR ''@'' \<in> set (content s) \<longrightarrow>
      mentionsEffect detect validate s =
        map (\<lambda>m. ValidateCall (pubkey m)) (detect (content s))
        @ [SetValidatedMentions
             (List.map_filter (resolveMention validate) (detect (content s)))]
      \<and> validatedMentions (runMentionsEffect detect validate s) =
          List.map_filter (resolveMention validate) (detect (content s)))"
proof (intro conjI impI)
  assume "CHR ''@'' \<notin> set (content s)"
  then show "mentionsEffect detect validate s = [SetValidatedMentions []]"
    and "validatedMentions (runMentionsEffect detect validate s) = []"
    by (simp_all add: runMentionsEffect_def mentionsEffect_def)
next
  assume a: "CHR ''@'' \<in> set (content s)"
  from mentionsEffect_at [OF a] show "mentionsEffect detect validate s =
        map (\<lambda>m. ValidateCall (pubkey m)) (detect (content s))
        @ [SetValidatedMentions
             (List.map_filter (resolveMention validate) (detect (content s)))]" .
  then show "validatedMentions (runMentionsEffect detect validate s) =
          List.map_filter (resolveMention validate) (detect (content s))"
    by (simp add: runMentionsEffect_def foldl_ValidateCall)
qed

theorem mentionsEffect_gating_witness:
  "mentionsEffect (\<lambda>c. [\<lparr>pubkey = ''alice''\<rparr>, \<lparr>pubkey = ''bob''\<rparr>])
      (\<lambda>k. if k = ''bob'' then Some ''02bb'' else None)
      \<lparr>content = ''hi @alice @bob'', isSubmitting = False,
       validatedMentions = [\<lparr>pubkey = ''old''\<rparr>], editor = None, lastContentRef = [],
       emojiQuery = [], emojiRangeRef = None\<rparr>
     = [ValidateCall ''alice'', ValidateCall ''bob'', SetValidatedMentions [\<lparr>pubkey = ''02bb''\<rparr>]]
   \<and> mentionsEffect (\<lambda>c. [\<lparr>pubkey = ''alice''\<rparr>, \<lparr>pubkey = ''bob''\<rparr>])
      (\<lambda>k. if k = ''bob'' then Some ''02bb'' else None)
      \<lparr>content = ''hi alice'', isSubmitting = False,
       validatedMentions = [\<lparr>pubkey = ''old''\<rparr>], editor = None, lastContentRef = [],
       emojiQuery = [], emojiRangeRef = None\<rparr>
     = [SetValidatedMentions []]"
proof -
  let ?d = "\<lambda>c::string. [\<lparr>pubkey = ''alice''\<rparr>, \<lparr>pubkey = ''bob''\<rparr>]"
  let ?v = "\<lambda>k. if k = ''bob'' then Some ''02bb'' else None"
  let ?s1 = "\<lparr>content = ''hi @alice @bob'', isSubmitting = False,
       validatedMentions = [\<lparr>pubkey = ''old''\<rparr>], editor = None, lastContentRef = [],
       emojiQuery = [], emojiRangeRef = None\<rparr>"
  let ?s0 = "\<lparr>content = ''hi alice'', isSubmitting = False,
       validatedMentions = [\<lparr>pubkey = ''old''\<rparr>], editor = None, lastContentRef = [],
       emojiQuery = [], emojiRangeRef = None\<rparr>"
  have 1: "mentionsEffect ?d ?v ?s1
     = [ValidateCall ''alice'', ValidateCall ''bob'', SetValidatedMentions [\<lparr>pubkey = ''02bb''\<rparr>]]"
    using mentionsEffect_gating [of ?s1 ?d ?v]
    by (simp add: List.map_filter_simps resolveMention_def)
  have 0: "mentionsEffect ?d ?v ?s0 = [SetValidatedMentions []]"
    using mentionsEffect_gating [of ?s0 ?d ?v] by simp
  from 1 0 show ?thesis by blast
qed

text \<open>
  Claim C9. The text before the caret yields the query \<open>q\<close> exactly when it ends in
  a colon followed by \<open>q\<close>, \<open>q\<close> consists of word characters, \<open>+\<close> and \<open>-\<close>, and the
  colon stands at the start of the text or after a white-space character. With the
  caret at the end of \<open>hello :sma\<close> the query is \<open>sma\<close> and the range covers the colon
  and the run; \<open>hello:sma\<close>, whose colon follows a letter, and \<open>hellosma\<close>, which has no
  colon, yield none; an empty run clears the query and the range.
\<close>

theorem emojiQuery_extraction:
  "(emojiQueryExec u = Some q \<longleftrightarrow>
      (\<exists>pre. u = pre @ CHR '':'' # q \<and> (pre = [] \<or> isSpace (last pre))
            \<and> list_all isQueryChar q))
   \<and> (list_all isQueryChar q \<and> pre \<noteq> [] \<and> \<not> isSpace (last pre) \<longrightarrow>
        emojiQueryExec (pre @ CHR '':'' # q) = None)
   \<and> (CHR '':'' \<notin> set u \<longrightarrow> emojiQueryExec u = None)
   \<and> emojiQueryExec ''hello :sma'' = Some ''sma''
   \<and> emojiQueryExec ''hello:sma'' = None
   \<and> emojiQueryExec ''hellosma'' = None
   \<and> (editor s \<noteq> None \<and> emojiQueryExec (take k t) = Some q \<and> q \<noteq> [] \<longrightarrow>
        updateEmojiQueryFromSelection
          (Some \<lparr>endContainer = TextNode t, endOffset = k, endInEditor = True\<rparr>) s
        = s\<lparr>emojiQuery := q,
             emojiRangeRef := Some \<lparr>rangeNode = TextNode t,
                                   rangeStart = int k - int (length q) - 1,
                                   rangeEnd = int k\<rparr>\<rparr>)
   \<and> (emojiQueryExec (take k t) = Some [] \<or> emojiQueryExec (take k t) = None \<longrightarrow>
        emojiQuery (updateEmojiQueryFromSelection
          (Some \<lparr>endContainer = TextNode t, endOffset = k, endInEditor = True\<rparr>) s) = []
        \<and> emojiRangeRef (updateEmojiQueryFromSelection
          (Some \<lparr>endContainer = TextNode t, endOffset = k, endInEditor = True\<rparr>) s) = None)"
proof -
  have 1: "emojiQueryExec ''hello :sma'' = Some ''sma''"
    using queryFrom_complete [of "''sma''" "''hello ''" True]
    by (simp add: emojiQueryExec_def isQueryChar_def isWordChar_def isAlnum_def isSpace_def)
  have 2: "emojiQueryExec ''hello:sma'' = None"
    using emojiQueryExec_unspaced [of "''sma''" "''hello''"]
    by (simp add: isQueryChar_def isWordChar_def isAlnum_def isSpace_def)
  have 3: "emojiQueryExec ''hellosma'' = None"
    by (rule emojiQueryExec_no_colon) simp
  have 4: "editor s \<noteq> None \<and> emojiQueryExec (take k t) = Some q \<and> q \<noteq> [] \<longrightarrow>
        updateEmojiQueryFromSelection
          (Some \<lparr>endContainer = TextNode t, endOffset = k, endInEditor = True\<rparr>) s
        = s\<lparr>emojiQuery := q,
             emojiRangeRef := Some \<lparr>rangeNode = TextNode t,
                                   rangeStart = int k - int (length q) - 1,
                                   rangeEnd = int k\<rparr>\<rparr>"
    by (auto simp: updateEmojiQueryFromSelection_def)
  have 5: "emojiQueryExec (take k t) = Some [] \<or> emojiQueryExec (take k t) = None \<longrightarrow>
        emojiQuery (updateEmojiQueryFromSelection
          (Some \<lparr>endContainer = TextNode t, endOffset = k, endInEditor = True\<rparr>) s) = []
        \<and> emojiRangeRef (updateEmojiQueryFromSelection
          (Some \<lparr>endContainer = TextNode t, endOffset = k, endInEditor = True\<rparr>) s) = None"
    by (auto simp: updateEmojiQueryFromSelection_def clearEmojiQuery_def split: option.splits)
  show ?thesis
    using emojiQueryExec_iff [of u q] emojiQueryExec_unspaced [of q pre]
      emojiQueryExec_no_colon [of u] 1 2 3 4 5
    by blast
qed

theorem emojiQuery_extraction_witness:
  "updateEmojiQueryFromSelection
     (Some \<lparr>endContainer = TextNode ''hello :sma'', endOffset = 10, endInEditor = True\<rparr>)
     \<lparr>content = ''hello :sma'', isSubmitting = False, validatedMentions = [],
      editor = Some [TextNode ''hello :sma''], lastContentRef = ''hello :sma'',
      emojiQuery = [], emojiRangeRef = None\<rparr>
   = \<lparr>content = ''hello :sma'', isSubmitting = False, validatedMentions = [],
      editor = Some [TextNode ''hello :sma''], lastContentRef = ''hello :sma'',
      emojiQuery = ''sma'',
      emojiRangeRef = Some \<lparr>rangeNode = TextNode ''hello :sma'', rangeStart = 6,
                            rangeEnd = 10\<rparr>\<rparr>
   \<and> emojiQuery (updateEmojiQueryFromSelection
       (Some \<lparr>endContainer = TextNode ''hello :'', endOffset = 7, endInEditor = True\<rparr>)
       \<lparr>content = ''hello :'', isSubmitting = False, validatedMentions = [],
        editor = Some [TextNode ''hello :''], lastContentRef = ''hello :'',
        emojiQuery = ''sm'', emojiRangeRef = None\<rparr>) = []"
proof -
  let ?s = "\<lparr>content = ''hello :sma'', isSubmitting = False, validatedMentions = [],
      editor = Some [TextNode ''hello :sma''], lastContentRef = ''hello :sma'',
      emojiQuery = [], emojiRangeRef = None\<rparr>"
  let ?s' = "\<lparr>content = ''hello :'', isSubmitting = False, validatedMentions = [],
        editor = Some [TextNode ''hello :''], lastContentRef = ''hello :'',
        emojiQuery = ''sm'', emojiRangeRef = None\<rparr>"
  have q: "emojiQueryExec (take 10 ''hello :sma'') = Some ''sma''" by code_simp
  have e: "emojiQueryExec (take 7 ''hello :'') = Some []" by code_simp
  have 1: "updateEmojiQueryFromSelection
     (Some \<lparr>endContainer = TextNode ''hello :sma'', endOffset = 10, endInEditor = True\<rparr>) ?s
     = ?s\<lparr>emojiQuery := ''sma'',
          emojiRangeRef := Some \<lparr>rangeNode = TextNode ''hello :sma'',
                                rangeStart = int 10 - int (length ''sma'') - 1,
                                rangeEnd = int 10\<rparr>\<rparr>"
    using emojiQuery_extraction [where q = "''sma''" and s = ?s and k = 10 and t = "''hello :sma''"] q by simp
  have 2: "emojiQuery (updateEmojiQueryFromSelection
       (Some \<lparr>endContainer = TextNode ''hello :'', endOffset = 7, endInEditor = True\<rparr>) ?s') = []"
    using emojiQuery_extraction [where s = ?s' and k = 7 and t = "''hello :''"] e by blast
  from 1 2 show ?thesis by simp
qed

text \<open>
  Claim C10. When the content is empty or only white space, or no private key is
  available, an invocation of submit calls no sender and changes no state: content,
  validated mentions and in-flight flag keep their values.
\<close>

theorem handlePost_guard:
  assumes "list_all isSpace (content s) \<or> privateKey e = None \<or> privateKey e = Some []"
  shows "handlePostStart e s = (s, []) \<and> handlePost e out s = (s, [])"
proof -
  from assms have "\<not> canSubmit e s"
    by (auto simp: canSubmit_def trim_all_space)
  then show ?thesis
    by (simp add: handlePost_def handlePostStart_rejected)
qed

theorem handlePost_guard_witness:
  "handlePost \<lparr>privateKey = Some ''key'', hideTransactionPopup = False\<rparr> (Fulfilled None)
      \<lparr>content = [CHR 0x20, nl], isSubmitting = False, validatedMentions = [\<lparr>pubkey = ''p''\<rparr>],
       editor = None, lastContentRef = [], emojiQuery = [], emojiRangeRef = None\<rparr>
    = (\<lparr>content = [CHR 0x20, nl], isSubmitting = False, validatedMentions = [\<lparr>pubkey = ''p''\<rparr>],
       editor = None, lastContentRef = [], emojiQuery = [], emojiRangeRef = None\<rparr>, [])
   \<and> handlePostStart \<lparr>privateKey = None, hideTransactionPopup = False\<rparr>
      \<lparr>content = ''hello'', isSubmitting = False, validatedMentions = [],
       editor = None, lastContentRef = [], emojiQuery = [], emojiRangeRef = None\<rparr>
    = (\<lparr>content = ''hello'', isSubmitting = False, validatedMentions = [],
       editor = None, lastContentRef = [], emojiQuery = [], emojiRangeRef = None\<rparr>, [])"
proof -
  let ?s = "\<lparr>content = [CHR 0x20, nl], isSubmitting = False, validatedMentions = [\<lparr>pubkey = ''p''\<rparr>],
       editor = None, lastContentRef = [], emojiQuery = [], emojiRangeRef = None\<rparr>"
  have a: "list_all isSpace (content ?s)" by (simp add: isSpace_def)
  have 1: "handlePost \<lparr>privateKey = Some ''key'', hideTransactionPopup = False\<rparr> (Fulfilled None) ?s = (?s, [])"
    using handlePost_guard [of ?s "\<lparr>privateKey = Some ''key'', hideTransactionPopup = False\<rparr>"] a
    by blast
  have 2: "handlePostStart \<lparr>privateKey = None, hideTransactionPopup = False\<rparr>
      \<lparr>content = ''hello'', isSubmitting = False, validatedMentions = [],
       editor = None, lastContentRef = [], emojiQuery = [], emojiRangeRef = None\<rparr>
    = (\<lparr>content = ''hello'', isSubmitting = False, validatedMentions = [],
       editor = None, lastContentRef = [], emojiQuery = [], emojiRangeRef = None\<rparr>, [])"
    using handlePost_guard [of _ "\<lparr>privateKey = None, hideTransactionPopup = False\<rparr>"]
    by simp
  from 1 2 show ?thesis by blast
qed

end
